theory Spec2Isabelle
  imports Main "HOL-Library.AList"
begin

section \<open>Python values\<close>

text \<open>
  The scraper works on decoded JSON documents. A JSON document is a value of \<open>json\<close>;
  an object is an association list read with \<open>map_of\<close>. JSON numbers are modelled as
  integers (floating point numbers are outside the model), and a \<open>char\<close> stands for one
  character of a Python string.
\<close>

datatype json =
    JNull
  | JBool bool
  | JNum int
  | JStr string
  | JArr "json list"
  | JObj "(string \<times> json) list"

text \<open>
  Every exception the modelled code can raise is a value. \<open>FBUnknownConvers\<close> carries
  the identifier its message is formatted from; \<open>LibraryError\<close> stands for whatever a
  library function that the model takes as a parameter raised; \<open>DownloadError\<close> stands
  for whatever a download worker raised and carries \<open>str(e)\<close>.
\<close>

datatype error =
    KeyError json
  | IndexError
  | TypeError
  | ValueError
  | AttributeError
  | OSError
  | FBResponseError json
  | FBUnknownConvers json
  | UnboundLocalError
  | OverflowError
  | LibraryError
  | DownloadError string

definition bind :: "error + 'a \<Rightarrow> ('a \<Rightarrow> error + 'b) \<Rightarrow> error + 'b" where
  "bind m f = (case m of Inl e \<Rightarrow> Inl e | Inr x \<Rightarrow> f x)"

lemma bind_cong [fundef_cong]:
  "m = m' \<Longrightarrow> (\<And>x. m' = Inr x \<Longrightarrow> f x = f' x) \<Longrightarrow> bind m f = bind m' f'"
  by (simp add: bind_def split: sum.splits)

text \<open>\<open>x[k]\<close> for a string key \<open>k\<close>: only a dict can be subscripted by a string.\<close>

fun py_getitem :: "json \<Rightarrow> string \<Rightarrow> error + json" where
  "py_getitem (JObj kvs) k =
     (case map_of kvs k of None \<Rightarrow> Inl (KeyError (JStr k)) | Some v \<Rightarrow> Inr v)"
| "py_getitem _ k = Inl TypeError"

text \<open>
  \<open>x[0]\<close>: the first element of a list or string; a decoded JSON object has string keys
  only, so \<open>0\<close> is never one of them.
\<close>

fun py_first :: "json \<Rightarrow> error + json" where
  "py_first (JArr []) = Inl IndexError"
| "py_first (JArr (x # xs)) = Inr x"
| "py_first (JStr []) = Inl IndexError"
| "py_first (JStr (c # cs)) = Inr (JStr [c])"
| "py_first (JObj kvs) = Inl (KeyError (JNum 0))"
| "py_first _ = Inl TypeError"

text \<open>\<open>s in t\<close> on strings is the substring test.\<close>

fun str_contains :: "string \<Rightarrow> string \<Rightarrow> bool" where
  "str_contains k [] = (k = [])"
| "str_contains k (c # cs) = (take (length k) (c # cs) = k \<or> str_contains k cs)"

text \<open>\<open>k in x\<close> for a string \<open>k\<close>: key membership, element membership or substring.\<close>

fun py_in :: "string \<Rightarrow> json \<Rightarrow> error + bool" where
  "py_in k (JObj kvs) = Inr (map_of kvs k \<noteq> None)"
| "py_in k (JArr xs) = Inr (List.member xs (JStr k))"
| "py_in k (JStr s) = Inr (str_contains k s)"
| "py_in k _ = Inl TypeError"

text \<open>\<open>for x in v\<close>: a list yields its elements, a dict its keys, a string its characters.\<close>

fun py_iter :: "json \<Rightarrow> error + json list" where
  "py_iter (JArr xs) = Inr xs"
| "py_iter (JObj kvs) = Inr (map (\<lambda>kv. JStr (fst kv)) kvs)"
| "py_iter (JStr s) = Inr (map (\<lambda>c. JStr [c]) s)"
| "py_iter _ = Inl TypeError"

text \<open>\<open>len(v)\<close>.\<close>

fun py_len :: "json \<Rightarrow> error + int" where
  "py_len (JArr xs) = Inr (int (length xs))"
| "py_len (JObj kvs) = Inr (int (length kvs))"
| "py_len (JStr s) = Inr (int (length s))"
| "py_len _ = Inl TypeError"

text \<open>\<open>v == n\<close> for an integer literal \<open>n\<close>: Python's \<open>True\<close> equals \<open>1\<close>, \<open>False\<close> equals \<open>0\<close>.\<close>

fun py_eq_int :: "json \<Rightarrow> int \<Rightarrow> bool" where
  "py_eq_int (JNum i) n = (i = n)"
| "py_eq_int (JBool b) n = ((if b then 1 else 0) = n)"
| "py_eq_int _ n = False"

text \<open>
  Dictionaries keyed by JSON values keep insertion order: a store replaces the value
  under an equal key in place, or appends. Lists and dicts are unhashable; \<open>True\<close> and
  \<open>1\<close> (and \<open>False\<close> and \<open>0\<close>) are equal keys, and the key first stored is the one kept.
\<close>

fun hashable :: "json \<Rightarrow> bool" where
  "hashable (JArr xs) = False"
| "hashable (JObj kvs) = False"
| "hashable _ = True"

fun dict_key :: "json \<Rightarrow> json" where
  "dict_key (JBool b) = JNum (if b then 1 else 0)"
| "dict_key j = j"

fun dict_find :: "(json \<times> 'v) list \<Rightarrow> json \<Rightarrow> 'v option" where
  "dict_find [] k = None"
| "dict_find (p # ps) k =
     (if dict_key (fst p) = dict_key k then Some (snd p) else dict_find ps k)"

fun dict_store :: "(json \<times> 'v) list \<Rightarrow> json \<Rightarrow> 'v \<Rightarrow> (json \<times> 'v) list" where
  "dict_store [] k v = [(k, v)]"
| "dict_store (p # ps) k v =
     (if dict_key (fst p) = dict_key k then (fst p, v) # ps else p # dict_store ps k v)"

definition dict_get :: "(json \<times> 'v) list \<Rightarrow> json \<Rightarrow> error + 'v" where
  "dict_get d k =
     (if \<not> hashable k then Inl TypeError
      else case dict_find d k of None \<Rightarrow> Inl (KeyError k) | Some v \<Rightarrow> Inr v)"

definition dict_set :: "(json \<times> 'v) list \<Rightarrow> json \<Rightarrow> 'v \<Rightarrow> error + (json \<times> 'v) list" where
  "dict_set d k v = (if \<not> hashable k then Inl TypeError else Inr (dict_store d k v))"

definition dict_contains :: "(json \<times> 'v) list \<Rightarrow> json \<Rightarrow> error + bool" where
  "dict_contains d k =
     (if \<not> hashable k then Inl TypeError else Inr (dict_find d k \<noteq> None))"

text \<open>\<open>str(i)\<close> for an integer.\<close>

fun nat_digits :: "nat \<Rightarrow> string" where
  "nat_digits n =
     (if n < 10 then [char_of (48 + n)]
      else nat_digits (n div 10) @ [char_of (48 + n mod 10)])"

definition py_str_int :: "int \<Rightarrow> string" where
  "py_str_int i = (if i < 0 then CHR ''-'' # nat_digits (nat (- i)) else nat_digits (nat i))"

section \<open>lib.py\<close>

datatype FBDataTypes = ALL_DATA | MESSAGES | PICTURES | GIFS | VIDEOS | FILES | LINKS

fun data_type_value :: "FBDataTypes \<Rightarrow> string" where
  "data_type_value ALL_DATA = ''all''"
| "data_type_value MESSAGES = ''messages''"
| "data_type_value PICTURES = ''pictures''"
| "data_type_value GIFS = ''gifs''"
| "data_type_value VIDEOS = ''videos''"
| "data_type_value FILES = ''files''"
| "data_type_value LINKS = ''links''"

datatype FBParserMode = REPORT | DL

datatype FBConversType = GROUP | USER

fun convers_type_value :: "FBConversType \<Rightarrow> string" where
  "convers_type_value GROUP = ''group''"
| "convers_type_value USER = ''user''"

definition OUTPUT_DEFAULT_FOLDER :: string where
  "OUTPUT_DEFAULT_FOLDER = ''output''"

section \<open>dumper.py: requests\<close>

text \<open>
  A request is the URL, the headers and the form data of one \<open>requests.post\<close>. The remote
  service is a function from the requests issued so far (the last one is the current
  request) to the decoded JSON body of its answer, so that it may answer each request
  by its content, by its position, or both. Every function that talks to the service
  takes the list of requests issued so far and returns it extended.
\<close>

record request =
  url :: string
  req_headers :: "(string \<times> string) list"
  req_data :: "(string \<times> json) list"

type_synonym service = "request list \<Rightarrow> json"

definition DICT_FB_TYPES :: "string \<Rightarrow> string option" where
  "DICT_FB_TYPES = map_of [(''group'', ''thread_fbids''), (''user'', ''user_ids'')]"

definition url_convers :: string where
  "url_convers = ''https://www.facebook.com/ajax/mercury/thread_info.php''"

definition url_convers_list :: string where
  "url_convers_list = ''https://www.facebook.com/ajax/mercury/threadlist_info.php''"

definition end_flag :: string where
  "end_flag = ''end_of_history''"

definition basic_headers :: "(string \<times> string) list" where
  "basic_headers =
     [(''origin'', ''https://www.facebook.com''),
      (''accept-encoding'', ''gzip,deflate''),
      (''accept-language'', ''en-US,en;q=0.8''),
      (''pragma'', ''no-cache''),
      (''user-agent'', ''Mozilla/5.0 (Windows NT 6.1; WOW64) AppleWebKit/537.36 (KHTML, like Gecko) Chrome/44.0.2403.107 Safari/537.36''),
      (''content-type'', ''application/x-www-form-urlencoded''),
      (''accept'', ''*/*''),
      (''cache-control'', ''no-cache''),
      (''referer'', ''https://www.facebook.com/messages/toto'')]"

definition chunk_size_convers :: int where
  "chunk_size_convers = 1000"

text \<open>\<open>d.update(e)\<close> on dictionaries with string keys.\<close>

fun dict_update_all :: "(string \<times> 'v) list \<Rightarrow> (string \<times> 'v) list \<Rightarrow> (string \<times> 'v) list" where
  "dict_update_all d [] = d"
| "dict_update_all d (kv # rest) = dict_update_all (AList.update (fst kv) (snd kv) d) rest"

text \<open>
  \<open>make_request\<close>: post the request, then look for the error indicator. The answer is
  checked with \<open>in\<close> before anything is known about its type.
\<close>

definition make_request ::
  "service \<Rightarrow> (string \<times> string) list \<Rightarrow> string \<Rightarrow> (string \<times> json) list \<Rightarrow> request list
     \<Rightarrow> request list \<times> (error + json)" where
  "make_request srv hdrs u dat tr =
     (let tr' = tr @ [\<lparr>url = u, req_headers = hdrs, req_data = dat\<rparr>];
          json_data = srv tr'
      in (tr',
          bind (py_in ''error'' json_data) (\<lambda>has_error.
            if has_error
            then bind (py_getitem json_data ''errorSummary'') (\<lambda>s. Inl (FBResponseError s))
            else Inr json_data)))"

section \<open>dumper.py: the constructor\<close>

text \<open>
  \<open>re.search(key + '(.*?)\<newline>', raw).group(1)\<close>: the text after the leftmost occurrence of
  the key up to the end of that line. The dot does not match a newline, so the lazy and
  the greedy group of the source capture the same text, and there is no match when no
  newline follows the key; \<open>.group\<close> on the missing match raises AttributeError.
\<close>

fun after_first :: "string \<Rightarrow> string \<Rightarrow> string option" where
  "after_first k [] = (if k = [] then Some [] else None)"
| "after_first k (c # cs) =
     (if take (length k) (c # cs) = k then Some (drop (length k) (c # cs))
      else after_first k cs)"

definition newline :: char where
  "newline = CHR 0x0A"

definition search_field :: "string \<Rightarrow> string \<Rightarrow> error + string" where
  "search_field k raw =
     (case after_first k raw of
        None \<Rightarrow> Inl AttributeError
      | Some rest \<Rightarrow>
          if newline \<in> set rest then Inr (takeWhile (\<lambda>c. c \<noteq> newline) rest)
          else Inl AttributeError)"

definition get_post_data ::
  "string \<Rightarrow> error + ((string \<times> string) list \<times> (string \<times> json) list)" where
  "get_post_data raw =
     bind (search_field ''cookie:'' raw) (\<lambda>cookie.
     bind (search_field ''__user:'' raw) (\<lambda>user.
     bind (search_field ''__a:'' raw) (\<lambda>a.
     bind (search_field ''__dyn:'' raw) (\<lambda>dyn.
     bind (search_field ''__req:'' raw) (\<lambda>req.
     bind (search_field ''fb_dtsg:'' raw) (\<lambda>dtsg.
     bind (search_field ''__rev:'' raw) (\<lambda>rev.
       Inr (AList.update ''cookie'' cookie basic_headers,
            [(''__user'', JStr user), (''__a'', JStr a), (''__dyn'', JStr dyn),
             (''__req'', JStr req), (''fb_dtsg'', JStr dtsg), (''__rev'', JStr rev)]))))))))"

section \<open>dumper.py: the directory crawl\<close>

text \<open>
  A conversation of the index is the dict \<open>current_convers\<close> of the source: each of its
  five keys may be absent (the dict starts empty on every page and is filled key by key).
\<close>

record conversation =
  c_type :: "FBConversType option"
  c_name :: "json option"
  c_status :: "string option"
  c_participants :: "json option"
  c_last_message_timestamp :: "json option"

definition empty_convers :: conversation where
  "empty_convers =
     \<lparr>c_type = None, c_name = None, c_status = None, c_participants = None,
      c_last_message_timestamp = None\<rparr>"

type_synonym convers_index = "(json \<times> conversation) list"
type_synonym participant_dir = "(json \<times> json) list"

text \<open>
  The form data of one listing request. The status is \<open>inbox\<close> or \<open>archived\<close>; for any
  other string the source would leave \<open>data_for_msgs\<close> unbound.
\<close>

definition list_data :: "string \<Rightarrow> int \<Rightarrow> int \<Rightarrow> error + (string \<times> json) list" where
  "list_data convers_status offset csz =
     (if convers_status = ''inbox'' then
        Inr [(convers_status @ ''[offset]'', JStr (py_str_int offset)),
             (convers_status @ ''[limit]'', JStr (py_str_int csz)),
             (convers_status @ ''[filter]'', JStr []),
             (''client'', JStr ''web_messenger'')]
      else if convers_status = ''archived'' then
        Inr [(''action:'' @ convers_status @ ''[offset]'', JStr (py_str_int offset)),
             (''action:'' @ convers_status @ ''[limit]'', JStr (py_str_int csz)),
             (''action:'' @ convers_status @ ''[filter]'', JStr []),
             (''client'', JStr ''web_messenger'')]
      else Inl UnboundLocalError)"

text \<open>
  \<open>participants[participant["fbid"]] = participant["name"]\<close> for every participant of the
  page: Python evaluates the right-hand side first, then the key, then stores.
\<close>

fun merge_participants :: "participant_dir \<Rightarrow> json list \<Rightarrow> error + participant_dir" where
  "merge_participants ps [] = Inr ps"
| "merge_participants ps (p # rest) =
     bind (py_getitem p ''name'') (\<lambda>name.
     bind (py_getitem p ''fbid'') (\<lambda>fbid.
     bind (dict_set ps fbid name) (\<lambda>ps'.
       merge_participants ps' rest)))"

text \<open>
  The body of the loop over the threads of a page, up to the store into the index:
  the updated \<open>current_convers\<close> and the key \<open>c["thread_fbid"]\<close>. A thread whose type is
  neither 2 nor 1 keeps the type and name that \<open>current_convers\<close> holds from the thread
  before it on the same page.
\<close>

definition thread_entry ::
  "string \<Rightarrow> participant_dir \<Rightarrow> conversation \<Rightarrow> json \<Rightarrow> error + (conversation \<times> json)" where
  "thread_entry convers_status ps current_convers c =
     bind (py_getitem c ''thread_type'') (\<lambda>thread_type.
     bind (if py_eq_int thread_type 2 then
             bind (py_getitem c ''name'') (\<lambda>name.
               Inr (current_convers\<lparr>c_type := Some GROUP, c_name := Some name\<rparr>))
           else if py_eq_int thread_type 1 then
             bind (py_getitem c ''other_user_fbid'') (\<lambda>other.
             bind (dict_get ps other) (\<lambda>name.
               Inr (current_convers\<lparr>c_type := Some USER, c_name := Some name\<rparr>)))
           else Inr current_convers) (\<lambda>cur.
     bind (py_getitem c ''participants'') (\<lambda>parts.
     bind (py_getitem c ''last_message_timestamp'') (\<lambda>ts.
     bind (py_getitem c ''thread_fbid'') (\<lambda>thread_fbid.
       Inr (cur\<lparr>c_status := Some convers_status, c_participants := Some parts,
                c_last_message_timestamp := Some ts\<rparr>, thread_fbid))))))"

fun merge_threads ::
  "string \<Rightarrow> participant_dir \<Rightarrow> conversation \<Rightarrow> convers_index \<Rightarrow> json list
     \<Rightarrow> error + convers_index" where
  "merge_threads convers_status ps current_convers cv [] = Inr cv"
| "merge_threads convers_status ps current_convers cv (c # rest) =
     bind (thread_entry convers_status ps current_convers c) (\<lambda>entry.
     bind (dict_set cv (snd entry) (fst entry)) (\<lambda>cv'.
       merge_threads convers_status ps (fst entry) cv' rest))"

text \<open>
  One page of the listing: lines 249 to 276 of dumper.py. The result is the two
  dictionaries after the page and the value of \<open>len(json_threads) < _chunk_size_convers\<close>.
\<close>

definition merge_page ::
  "string \<Rightarrow> int \<Rightarrow> convers_index \<times> participant_dir \<Rightarrow> json
     \<Rightarrow> error + (convers_index \<times> participant_dir) \<times> bool" where
  "merge_page convers_status csz st json_data =
     bind (py_getitem json_data ''payload'') (\<lambda>payload.
     bind (py_getitem payload ''threads'') (\<lambda>json_threads.
     bind (py_getitem payload ''participants'') (\<lambda>json_participants.
     bind (py_iter json_participants) (\<lambda>parts.
     bind (merge_participants (snd st) parts) (\<lambda>ps'.
     bind (py_iter json_threads) (\<lambda>threads.
     bind (merge_threads convers_status ps' empty_convers (fst st) threads) (\<lambda>cv'.
     bind (py_len json_threads) (\<lambda>n.
       Inr ((cv', ps'), n < csz)))))))))"

text \<open>
  The source changes the two dictionaries in place, and an exception in the middle of
  a page takes nothing back. \<open>merge_participants\<close>, \<open>merge_threads\<close> and \<open>merge_page\<close>
  give the dictionaries of a page that went through. The next three functions give
  the dictionaries as they are when the work on a page stops, because it went through
  or because it raised: the directory after the loop of lines 253 and 254, the index
  after the loop of lines 256 to 271, and both for the page.
\<close>

fun participants_reached :: "participant_dir \<Rightarrow> json list \<Rightarrow> participant_dir" where
  "participants_reached ps [] = ps"
| "participants_reached ps (p # rest) =
     (case bind (py_getitem p ''name'') (\<lambda>name.
           bind (py_getitem p ''fbid'') (\<lambda>fbid.
             dict_set ps fbid name)) of
        Inl e \<Rightarrow> ps
      | Inr ps' \<Rightarrow> participants_reached ps' rest)"

fun index_reached ::
  "string \<Rightarrow> participant_dir \<Rightarrow> conversation \<Rightarrow> convers_index \<Rightarrow> json list \<Rightarrow> convers_index" where
  "index_reached convers_status ps current_convers cv [] = cv"
| "index_reached convers_status ps current_convers cv (c # rest) =
     (case thread_entry convers_status ps current_convers c of
        Inl e \<Rightarrow> cv
      | Inr entry \<Rightarrow>
          (case dict_set cv (snd entry) (fst entry) of
             Inl e \<Rightarrow> cv
           | Inr cv' \<Rightarrow> index_reached convers_status ps (fst entry) cv' rest))"

definition page_reached ::
  "string \<Rightarrow> convers_index \<times> participant_dir \<Rightarrow> json \<Rightarrow> convers_index \<times> participant_dir" where
  "page_reached convers_status st json_data =
     (case bind (py_getitem json_data ''payload'') (\<lambda>payload.
           bind (py_getitem payload ''threads'') (\<lambda>json_threads.
           bind (py_getitem payload ''participants'') (\<lambda>json_participants.
           bind (py_iter json_participants) (\<lambda>parts.
             Inr (json_threads, parts))))) of
        Inl e \<Rightarrow> st
      | Inr (json_threads, parts) \<Rightarrow>
          (case merge_participants (snd st) parts of
             Inl e \<Rightarrow> (fst st, participants_reached (snd st) parts)
           | Inr ps' \<Rightarrow>
               (case py_iter json_threads of
                  Inl e \<Rightarrow> (fst st, ps')
                | Inr threads \<Rightarrow>
                    (index_reached convers_status ps' empty_convers (fst st) threads, ps'))))"

text \<open>
  The \<open>while not is_dumped\<close> loop of one status. It may run forever (a service that
  always returns full pages), so it takes fuel: one unit per request, and \<open>None\<close> when
  the fuel runs out before the loop ends. \<open>csz\<close> is the class attribute
  \<open>_chunk_size_convers\<close>.
\<close>

fun convers_loop ::
  "nat \<Rightarrow> service \<Rightarrow> (string \<times> string) list \<Rightarrow> (string \<times> json) list \<Rightarrow> int \<Rightarrow> string \<Rightarrow> int
     \<Rightarrow> convers_index \<times> participant_dir \<Rightarrow> request list
     \<Rightarrow> request list \<times> (error + convers_index \<times> participant_dir) option" where
  "convers_loop 0 srv hdrs pd csz convers_status offset st tr = (tr, None)"
| "convers_loop (Suc fuel) srv hdrs pd csz convers_status offset st tr =
     (case list_data convers_status offset csz of
        Inl e \<Rightarrow> (tr, Some (Inl e))
      | Inr data_for_msgs \<Rightarrow>
          (case make_request srv hdrs url_convers_list (dict_update_all data_for_msgs pd) tr of
             (tr', Inl e) \<Rightarrow> (tr', Some (Inl e))
           | (tr', Inr json_data) \<Rightarrow>
               (case merge_page convers_status csz st json_data of
                  Inl e \<Rightarrow> (tr', Some (Inl e))
                | Inr (st', is_dumped) \<Rightarrow>
                    if is_dumped then (tr', Some (Inr st'))
                    else convers_loop fuel srv hdrs pd csz convers_status (offset + csz) st' tr')))"

definition get_all_convers_metadata ::
  "nat \<Rightarrow> service \<Rightarrow> (string \<times> string) list \<Rightarrow> (string \<times> json) list \<Rightarrow> int \<Rightarrow> request list
     \<Rightarrow> request list \<times> (error + convers_index \<times> participant_dir) option" where
  "get_all_convers_metadata fuel srv hdrs pd csz tr =
     (case convers_loop fuel srv hdrs pd csz ''inbox'' 0 ([], []) tr of
        (tr1, Some (Inr st1)) \<Rightarrow> convers_loop fuel srv hdrs pd csz ''archived'' 0 st1 tr1
      | (tr1, r) \<Rightarrow> (tr1, r))"

section \<open>dumper.py: the object\<close>

text \<open>
  The object. \<open>convers_ids\<close> is \<open>None\<close> or a list of identifiers; the raw data and the
  file path are \<open>None\<close> or strings; chunk size and timer are integers as the docstring
  has them. Reading the raw-data file is \<open>read_file\<close>, which is \<open>None\<close> where \<open>open\<close>
  fails; creating the output folder is taken to succeed.
\<close>

record FBDumper =
  convers_ids :: "string list option"
  user_raw_data :: string
  chunk_size :: int
  timer :: int
  output_folder :: string
  headers :: "(string \<times> string) list"
  post_data :: "(string \<times> json) list"
  convers :: convers_index
  participants :: participant_dir

text \<open>\<open>bool(s)\<close> for an optional string.\<close>

fun truthy :: "string option \<Rightarrow> bool" where
  "truthy None = False"
| "truthy (Some s) = (s \<noteq> [])"

text \<open>\<open>os.path.join(output, '')\<close>: the folder with one trailing separator.\<close>

definition sep :: string where
  "sep = ''/''"

definition join_empty :: "string \<Rightarrow> string" where
  "join_empty p = (if p = [] \<or> last p = CHR ''/'' then p else p @ sep)"

text \<open>Lines 87 to 96: the raw data, from the string or from the file.\<close>

definition load_raw_data ::
  "(string \<Rightarrow> string option) \<Rightarrow> string option \<Rightarrow> string option \<Rightarrow> error + string" where
  "load_raw_data read_file raw infile =
     (if truthy raw \<noteq> truthy infile then
        (if truthy raw then (case raw of Some s \<Rightarrow> Inr s | None \<Rightarrow> Inl ValueError)
         else (case infile of
                 Some path \<Rightarrow> (case read_file path of None \<Rightarrow> Inl OSError | Some s \<Rightarrow> Inr s)
               | None \<Rightarrow> Inl ValueError))
      else Inl ValueError)"

definition FBDumper_init ::
  "nat \<Rightarrow> service \<Rightarrow> (string \<Rightarrow> string option) \<Rightarrow> string list option \<Rightarrow> string option
     \<Rightarrow> string option \<Rightarrow> int \<Rightarrow> int \<Rightarrow> string \<Rightarrow> request list
     \<Rightarrow> request list \<times> (error + FBDumper) option" where
  "FBDumper_init fuel srv read_file ids raw infile csize tmr out tr =
     (case load_raw_data read_file raw infile of
        Inl e \<Rightarrow> (tr, Some (Inl e))
      | Inr raw_data \<Rightarrow>
          if csize \<le> 0 then (tr, Some (Inl ValueError))
          else if tmr < 0 then (tr, Some (Inl ValueError))
          else
            (case get_post_data raw_data of
               Inl e \<Rightarrow> (tr, Some (Inl e))
             | Inr (hdrs, pd) \<Rightarrow>
                 (case get_all_convers_metadata fuel srv hdrs pd chunk_size_convers tr of
                    (tr', None) \<Rightarrow> (tr', None)
                  | (tr', Some (Inl e)) \<Rightarrow> (tr', Some (Inl e))
                  | (tr', Some (Inr (cv, ps))) \<Rightarrow>
                      (tr', Some (Inr \<lparr>convers_ids = ids, user_raw_data = raw_data,
                                        chunk_size = csize, timer = tmr,
                                        output_folder = join_empty out, headers = hdrs,
                                        post_data = pd, convers = cv,
                                        participants = ps\<rparr>)))))"

section \<open>dumper.py: the history crawl\<close>

text \<open>
  What \<open>dump\<close> does to the outside: the requests it issues, the lines it prints and the
  files it writes (path and dumped value). Creating a folder and writing a file are
  taken to succeed.
\<close>

record world =
  requests :: "request list"
  stdout :: "string list"
  files :: "(string \<times> json) list"

text \<open>The single quote of the format strings.\<close>

definition quote :: string where
  "quote = [CHR 0x27]"

text \<open>\<open>str(v)\<close> of a value that can be a dictionary key.\<close>

fun py_str :: "json \<Rightarrow> string" where
  "py_str (JStr s) = s"
| "py_str (JNum i) = py_str_int i"
| "py_str (JBool b) = (if b then ''True'' else ''False'')"
| "py_str _ = ''None''"

text \<open>\<open>xs + messages\<close> where \<open>messages\<close> is a list: only a list can be added to a list.\<close>

fun py_add_list :: "json \<Rightarrow> json list \<Rightarrow> error + json list" where
  "py_add_list (JArr xs) ys = Inr (xs @ ys)"
| "py_add_list _ ys = Inl TypeError"

definition build_data ::
  "FBDumper \<Rightarrow> json \<Rightarrow> FBConversType \<Rightarrow> int \<Rightarrow> json \<Rightarrow> error + (string \<times> json) list" where
  "build_data d convers_id convers_type offset timestamp =
     (case DICT_FB_TYPES (convers_type_value convers_type) of
        None \<Rightarrow> Inl (KeyError (JStr (convers_type_value convers_type)))
      | Some t \<Rightarrow>
          (case convers_id of
             JStr cid \<Rightarrow>
               Inr (dict_update_all
                 [(''messages['' @ t @ '']['' @ cid @ ''][offset]'', JStr (py_str_int offset)),
                  (''messages['' @ t @ '']['' @ cid @ ''][limit]'', JStr (py_str_int (chunk_size d))),
                  (''messages['' @ t @ '']['' @ cid @ ''][timestamp]'', timestamp),
                  (''client'', JStr ''web_messenger'')]
                 (post_data d))
           | _ \<Rightarrow> Inl TypeError))"

text \<open>
  Lines 334 and 335: the new accumulator and the new continuation timestamp, from the
  answer just received.
\<close>

definition take_chunk :: "json \<Rightarrow> json list \<Rightarrow> error + (json list \<times> json)" where
  "take_chunk json_data messages =
     bind (py_getitem json_data ''payload'') (\<lambda>payload.
     bind (py_getitem payload ''actions'') (\<lambda>actions.
     bind (py_add_list actions messages) (\<lambda>messages'.
     bind (py_first actions) (\<lambda>first.
     bind (py_getitem first ''timestamp'') (\<lambda>timestamp.
       Inr (messages', timestamp))))))"

text \<open>The loop condition of line 321.\<close>

definition history_ended :: "json \<Rightarrow> error + bool" where
  "history_ended json_data = bind (py_getitem json_data ''payload'') (py_in end_flag)"

text \<open>
  \<open>time.sleep(self.timer)\<close> of line 338, for a whole number of seconds. The call raises
  \<open>ValueError\<close> for a negative number, and \<open>OverflowError\<close> for a number that does not
  fit the type in which the interpreter keeps a duration: CPython counts nanoseconds
  in 64 bits, so 9223372036 seconds are the most it takes. The time that passes has no
  place in the model.
\<close>

definition sleep_max :: int where
  "sleep_max = 9223372036"

definition time_sleep :: "int \<Rightarrow> error + unit" where
  "time_sleep secs =
     (if secs < 0 then Inl ValueError
      else if sleep_max < secs then Inl OverflowError
      else Inr ())"

text \<open>
  The \<open>while\<close> loop of lines 321 to 338 for the conversation \<open>c\<close>. It runs until the last
  answer holds the end flag, which may never happen, so it takes fuel: one unit per
  evaluation of the loop condition, \<open>None\<close> when the fuel runs out.
\<close>

fun history_loop ::
  "nat \<Rightarrow> service \<Rightarrow> FBDumper \<Rightarrow> bool \<Rightarrow> json \<Rightarrow> conversation \<Rightarrow> int \<Rightarrow> json \<Rightarrow> json list
     \<Rightarrow> json \<Rightarrow> world \<Rightarrow> world \<times> (error + json list) option" where
  "history_loop 0 srv d to_stdout c current_convers offset timestamp messages json_data w =
     (w, None)"
| "history_loop (Suc fuel) srv d to_stdout c current_convers offset timestamp messages
       json_data w =
     (case history_ended json_data of
        Inl e \<Rightarrow> (w, Some (Inl e))
      | Inr True \<Rightarrow> (w, Some (Inr messages))
      | Inr False \<Rightarrow>
          (case bind (case c_type current_convers of
                        None \<Rightarrow> Inl (KeyError (JStr ''type''))
                      | Some t \<Rightarrow> Inr t)
                  (\<lambda>t. build_data d c t offset timestamp) of
             Inl e \<Rightarrow> (w, Some (Inl e))
           | Inr data_for_msgs \<Rightarrow>
               (let w1 = (if to_stdout
                          then w\<lparr>stdout := stdout w @
                                 [''[+]     - Retrieving messages '' @ py_str_int offset @ ''-''
                                    @ py_str_int (chunk_size d + offset)]\<rparr>
                          else w)
                in case make_request srv (headers d) url_convers data_for_msgs (requests w1) of
                     (tr', Inl e) \<Rightarrow> (w1\<lparr>requests := tr'\<rparr>, Some (Inl e))
                   | (tr', Inr json_data') \<Rightarrow>
                       (case take_chunk json_data' messages of
                          Inl e \<Rightarrow> (w1\<lparr>requests := tr'\<rparr>, Some (Inl e))
                        | Inr (messages', timestamp') \<Rightarrow>
                            (case time_sleep (timer d) of
                               Inl e \<Rightarrow> (w1\<lparr>requests := tr'\<rparr>, Some (Inl e))
                             | Inr u \<Rightarrow>
                                 history_loop fuel srv d to_stdout c current_convers
                                   (offset + chunk_size d) timestamp' messages' json_data'
                                   (w1\<lparr>requests := tr'\<rparr>))))))"

text \<open>
  The name of a conversation, made ASCII: \<open>unidecode(self.convers[c]["name"])\<close>. The
  library function \<open>unidecode\<close> is a parameter; it answers for every decoded value, with
  \<open>None\<close> where the library raises.
\<close>

definition convers_name ::
  "(json \<Rightarrow> string option) \<Rightarrow> FBDumper \<Rightarrow> json \<Rightarrow> error + string" where
  "convers_name unidecode d c =
     bind (dict_get (convers d) c) (\<lambda>conv.
     bind (case c_name conv of None \<Rightarrow> Inl (KeyError (JStr ''name'')) | Some n \<Rightarrow> Inr n) (\<lambda>name.
       case unidecode name of None \<Rightarrow> Inl LibraryError | Some s \<Rightarrow> Inr s))"

text \<open>The body of the \<open>for\<close> loop of \<open>dump\<close> for one identifier: lines 305 to 342.\<close>

definition dump_convers ::
  "nat \<Rightarrow> service \<Rightarrow> (json \<Rightarrow> string option) \<Rightarrow> FBDumper \<Rightarrow> bool \<Rightarrow> json \<Rightarrow> world
     \<Rightarrow> world \<times> (error + unit) option" where
  "dump_convers fuel srv unidecode d to_stdout c w =
     (case dict_contains (convers d) c of
        Inl e \<Rightarrow> (w, Some (Inl e))
      | Inr False \<Rightarrow> (w, Some (Inl (FBUnknownConvers c)))
      | Inr True \<Rightarrow>
          (case (if to_stdout
                 then bind (convers_name unidecode d c) (\<lambda>name.
                        Inr (w\<lparr>stdout := stdout w @
                               [''[+] - Dumping JSON from conversation with ID: '' @ quote @ py_str c
                                  @ quote @ '' and name: '' @ quote @ name @ quote]\<rparr>))
                 else Inr w) of
             Inl e \<Rightarrow> (w, Some (Inl e))
           | Inr w1 \<Rightarrow>
               (case dict_get (convers d) c of
                  Inl e \<Rightarrow> (w1, Some (Inl e))
                | Inr current_convers \<Rightarrow>
                    (case history_loop fuel srv d to_stdout c current_convers 0 (JStr ''0'') []
                            (JObj [(''payload'', JObj [])]) w1 of
                       (w2, None) \<Rightarrow> (w2, None)
                     | (w2, Some (Inl e)) \<Rightarrow> (w2, Some (Inl e))
                     | (w2, Some (Inr messages)) \<Rightarrow>
                         (case bind (case c of JStr cid \<Rightarrow> Inr cid | _ \<Rightarrow> Inl TypeError) (\<lambda>cid.
                               bind (convers_name unidecode d c) (\<lambda>name.
                                 Inr (output_folder d @ cid @ '' - '' @ name @ sep))) of
                            Inl e \<Rightarrow> (w2, Some (Inl e))
                          | Inr filelocation \<Rightarrow>
                              (w2\<lparr>files := files w2 @
                                     [(filelocation @ ''complete.json'', JArr messages),
                                      (filelocation @ ''complete.pretty.json'', JArr messages)]\<rparr>,
                               Some (Inr ())))))))"

text \<open>
  The identifiers \<open>dump\<close> goes through: the requested ones if there are any, else every
  key of the index in insertion order.
\<close>

definition dump_ids :: "FBDumper \<Rightarrow> json list" where
  "dump_ids d =
     (case convers_ids d of
        None \<Rightarrow> map fst (convers d)
      | Some [] \<Rightarrow> map fst (convers d)
      | Some (i # ids) \<Rightarrow> map JStr (i # ids))"

fun dump_each ::
  "nat \<Rightarrow> service \<Rightarrow> (json \<Rightarrow> string option) \<Rightarrow> FBDumper \<Rightarrow> bool \<Rightarrow> json list \<Rightarrow> world
     \<Rightarrow> world \<times> (error + unit) option" where
  "dump_each fuel srv unidecode d to_stdout [] w = (w, Some (Inr ()))"
| "dump_each fuel srv unidecode d to_stdout (c # cs) w =
     (case dump_convers fuel srv unidecode d to_stdout c w of
        (w', Some (Inr u)) \<Rightarrow> dump_each fuel srv unidecode d to_stdout cs w'
      | (w', r) \<Rightarrow> (w', r))"

definition dump ::
  "nat \<Rightarrow> service \<Rightarrow> (json \<Rightarrow> string option) \<Rightarrow> FBDumper \<Rightarrow> bool \<Rightarrow> world
     \<Rightarrow> world \<times> (error + unit) option" where
  "dump fuel srv unidecode d to_stdout w =
     dump_each fuel srv unidecode d to_stdout (dump_ids d) w"

section \<open>parser.py: the object\<close>

text \<open>
  The part of an \<open>FBParser\<close> object that the classification of messages reads and
  writes. The six text attributes are one field indexed by the data type:
  \<open>streams p MESSAGES\<close> is \<open>self.msgs\<close>, \<open>streams p PICTURES\<close> is \<open>self.pics\<close>, then
  \<open>self.gifs\<close>, \<open>self.videos\<close>, \<open>self.files\<close> and \<open>self.links\<close>; \<open>counts p PICTURES\<close> is
  \<open>self.cnt_pics\<close>, and likewise for the five other counters. \<open>parser_participants\<close> is
  \<open>self.participants\<close>. \<open>futures\<close> lists the calls
  \<open>self.executor.submit(self.dl_file, url, dl_path)\<close> in the order they were made, each
  as the pair of its two arguments; the dictionary \<open>self.futures\<close> maps the future of
  each call to that same \<open>url\<close>.
\<close>

record FBParser =
  mode :: FBParserMode
  output_convers :: string
  parser_participants :: participant_dir
  streams :: "FBDataTypes \<Rightarrow> string"
  counts :: "FBDataTypes \<Rightarrow> int"
  futures :: "(json \<times> string) list"

text \<open>
  The library functions the parser calls on decoded values are parameters of the
  model: \<open>repr\<close>, \<open>str\<close> of a list or of a dict, the rendering
  \<open>datetime.fromtimestamp(ms / 1000).strftime('%Y-%m-%d %H:%M:%S')\<close> of a number of
  milliseconds (which depends on the local time zone, and is \<open>None\<close> where the library
  raises), and \<open>urllib.parse.unquote\<close>.
\<close>

record library =
  py_repr :: "json \<Rightarrow> string"
  str_container :: "json \<Rightarrow> string"
  fromtimestamp_strftime :: "int \<Rightarrow> string option"
  unquote :: "string \<Rightarrow> string"

text \<open>\<open>str(v)\<close> of any decoded value.\<close>

definition py_str_any :: "library \<Rightarrow> json \<Rightarrow> string" where
  "py_str_any L v =
     (case v of JArr xs \<Rightarrow> str_container L v | JObj kvs \<Rightarrow> str_container L v | _ \<Rightarrow> py_str v)"

text \<open>\<open>v + s\<close> and \<open>s + v\<close> for a string \<open>s\<close>: only a string can be added to a string.\<close>

definition py_add_str :: "json \<Rightarrow> string \<Rightarrow> error + string" where
  "py_add_str v s = (case v of JStr t \<Rightarrow> Inr (t @ s) | _ \<Rightarrow> Inl TypeError)"

definition py_str_add :: "string \<Rightarrow> json \<Rightarrow> error + string" where
  "py_str_add s v = (case v of JStr t \<Rightarrow> Inr (s @ t) | _ \<Rightarrow> Inl TypeError)"

definition action_type_user_msg :: string where
  "action_type_user_msg = ''ma-type:user-generated-message''"

definition common_checks :: "json \<Rightarrow> error + bool" where
  "common_checks msg =
     bind (py_getitem msg ''action_type'') (\<lambda>action_type.
       Inr (action_type = JStr action_type_user_msg))"

section \<open>parser.py: messages\<close>

text \<open>
  \<open>message_fmt.format(body, attachments, username, fbid, date)\<close>, the five arguments
  already turned into strings.
\<close>

definition message_fmt :: "string \<Rightarrow> string \<Rightarrow> string \<Rightarrow> string \<Rightarrow> string \<Rightarrow> string" where
  "message_fmt body attachments username fbid date =
     ''Message body: '' @ body @ '' - attachments {'' @ attachments @ ''} - sent by: '' @ quote
       @ username @ quote @ '' ('' @ fbid @ '') - the '' @ date @ [newline]"

text \<open>
  The list comprehension of lines 228 to 230, joined: for each attachment the filter
  is evaluated, then the element.
\<close>

fun attachment_names :: "library \<Rightarrow> json list \<Rightarrow> error + string" where
  "attachment_names L [] = Inr []"
| "attachment_names L (a # rest) =
     bind (py_getitem a ''attach_type'') (\<lambda>attach_type.
     bind (if attach_type \<noteq> JStr ''error''
           then bind (py_getitem a ''name'') (\<lambda>name. Inr (py_str_any L name @ '' ''))
           else Inr []) (\<lambda>s.
     bind (attachment_names L rest) (\<lambda>t.
       Inr (s @ t))))"

text \<open>
  \<open>v[5:]\<close>: a string or a list can be sliced. A dict cannot: the slice is no key of it
  (a \<open>TypeError\<close> up to Python 3.11, where a slice is unhashable).
\<close>

definition py_from5 :: "json \<Rightarrow> error + json" where
  "py_from5 v =
     (case v of
        JStr s \<Rightarrow> Inr (JStr (drop 5 s))
      | JArr xs \<Rightarrow> Inr (JArr (drop 5 xs))
      | _ \<Rightarrow> Inl TypeError)"

text \<open>
  \<open>datetime.fromtimestamp(v / 1000).strftime(...)\<close>: only a number can be divided, and
  Python's \<open>True\<close> and \<open>False\<close> are the numbers 1 and 0.
\<close>

definition format_time :: "library \<Rightarrow> json \<Rightarrow> error + string" where
  "format_time L v =
     bind (case v of
             JNum i \<Rightarrow> Inr i
           | JBool b \<Rightarrow> Inr (if b then 1 else 0)
           | _ \<Rightarrow> Inl TypeError) (\<lambda>ms.
       case fromtimestamp_strftime L ms of None \<Rightarrow> Inl LibraryError | Some s \<Rightarrow> Inr s)"

definition check_and_get_msg :: "library \<Rightarrow> FBParser \<Rightarrow> json \<Rightarrow> error + FBParser" where
  "check_and_get_msg L p msg =
     bind (py_getitem msg ''attachments'') (\<lambda>msg_attachments.
     bind (py_iter msg_attachments) (\<lambda>as.
     bind (attachment_names L as) (\<lambda>joined.
     let attachments = butlast joined in
     bind (py_getitem msg ''author'') (\<lambda>author.
     bind (py_from5 author) (\<lambda>fbid.
     bind (dict_contains (parser_participants p) fbid) (\<lambda>known.
     bind (if known then dict_get (parser_participants p) fbid else Inr (JStr [])) (\<lambda>username.
     bind (py_getitem msg ''body'') (\<lambda>body.
     bind (py_getitem msg ''timestamp'') (\<lambda>timestamp.
     bind (format_time L timestamp) (\<lambda>date.
       Inr (p\<lparr>streams := (streams p)
                   (MESSAGES := streams p MESSAGES @
                      message_fmt (py_repr L body) attachments (py_str_any L username)
                        (py_str_any L fbid) date),
              counts := (counts p)(MESSAGES := counts p MESSAGES + 1)\<rparr>)))))))))))"

section \<open>parser.py: media\<close>

text \<open>
  The loop of \<open>check_and_get_pics\<close>, \<open>check_and_get_gifs\<close>, \<open>check_and_get_videos\<close> and
  \<open>check_and_get_files\<close>. The four functions are the same text up to the attachment
  type they look for (\<open>kind\<close>), the key they read the URL from (\<open>url_key\<close>) and the data
  type \<open>dt\<close> that names the text attribute, the counter and the subfolder; they are the
  four instances below. A call that raises leaves the attributes as they were when it
  raised; the model keeps the error only.
\<close>

fun check_and_get_media ::
  "string \<Rightarrow> string \<Rightarrow> FBDataTypes \<Rightarrow> FBParser \<Rightarrow> json list \<Rightarrow> error + FBParser" where
  "check_and_get_media kind url_key dt p [] = Inr p"
| "check_and_get_media kind url_key dt p (attachment # rest) =
     bind (py_getitem attachment ''attach_type'') (\<lambda>attach_type.
     bind (if attach_type = JStr kind
           then bind (py_getitem attachment url_key) (\<lambda>u. Inr (u \<noteq> JNull))
           else Inr False) (\<lambda>found.
     if found
     then
       bind (if mode p = REPORT \<or> mode p = DL
             then bind (py_getitem attachment url_key) (\<lambda>u.
                  bind (py_add_str u [newline]) (\<lambda>line.
                    Inr (p\<lparr>streams := (streams p)(dt := streams p dt @ line)\<rparr>)))
             else Inr p) (\<lambda>p1.
       bind (if mode p1 = DL
             then bind (py_getitem attachment ''name'') (\<lambda>name.
                  bind (py_str_add (output_convers p1 @ data_type_value dt @ sep) name)
                    (\<lambda>dl_path.
                  bind (py_getitem attachment url_key) (\<lambda>u.
                    Inr (p1\<lparr>futures := futures p1 @ [(u, dl_path)]\<rparr>))))
             else Inr p1) (\<lambda>p2.
       check_and_get_media kind url_key dt
         (p2\<lparr>counts := (counts p2)(dt := counts p2 dt + 1)\<rparr>) rest))
     else check_and_get_media kind url_key dt p rest))"

definition check_and_get_pics :: "FBParser \<Rightarrow> json \<Rightarrow> error + FBParser" where
  "check_and_get_pics p msg =
     bind (py_getitem msg ''attachments'') (\<lambda>attachments.
     bind (py_iter attachments) (check_and_get_media ''photo'' ''preview_url'' PICTURES p))"

definition check_and_get_gifs :: "FBParser \<Rightarrow> json \<Rightarrow> error + FBParser" where
  "check_and_get_gifs p msg =
     bind (py_getitem msg ''attachments'') (\<lambda>attachments.
     bind (py_iter attachments) (check_and_get_media ''animated_image'' ''preview_url'' GIFS p))"

definition check_and_get_videos :: "FBParser \<Rightarrow> json \<Rightarrow> error + FBParser" where
  "check_and_get_videos p msg =
     bind (py_getitem msg ''attachments'') (\<lambda>attachments.
     bind (py_iter attachments) (check_and_get_media ''video'' ''url'' VIDEOS p))"

definition check_and_get_files :: "FBParser \<Rightarrow> json \<Rightarrow> error + FBParser" where
  "check_and_get_files p msg =
     bind (py_getitem msg ''attachments'') (\<lambda>attachments.
     bind (py_iter attachments) (check_and_get_media ''file'' ''url'' FILES p))"

section \<open>parser.py: links\<close>

text \<open>
  The regular expression of line 363 is \<open>https://l.facebook.com/l.php.u=(.*?)&h=\<close>
  once Python has read the string: the escaped slashes are slashes, and each of the four
  dots is the metacharacter that matches one character other than a newline. What is
  in front of the group is a sequence of atoms of fixed length.
\<close>

datatype atom = Lit char | AnyChar

fun atom_matches :: "atom \<Rightarrow> char \<Rightarrow> bool" where
  "atom_matches (Lit c) d = (c = d)"
| "atom_matches AnyChar d = (d \<noteq> newline)"

definition regex_prefix :: "atom list" where
  "regex_prefix =
     map Lit ''https://l'' @ [AnyChar] @ map Lit ''facebook'' @ [AnyChar] @ map Lit ''com/l''
       @ [AnyChar] @ map Lit ''php'' @ [AnyChar] @ map Lit ''u=''"

definition regex_suffix :: string where
  "regex_suffix = ''&h=''"

text \<open>The atoms matched at the start of a string: what is left of the string.\<close>

fun match_atoms :: "atom list \<Rightarrow> string \<Rightarrow> string option" where
  "match_atoms [] s = Some s"
| "match_atoms (a # as) [] = None"
| "match_atoms (a # as) (c # cs) = (if atom_matches a c then match_atoms as cs else None)"

text \<open>
  The lazy group \<open>(.*?)\<close> followed by the literal \<open>stop\<close>, matched at the start of a
  string: the group grows one character at a time, never over a newline, until \<open>stop\<close>
  follows it.
\<close>

fun lazy_until :: "string \<Rightarrow> string \<Rightarrow> string option" where
  "lazy_until stop [] = (if stop = [] then Some [] else None)"
| "lazy_until stop (c # cs) =
     (if take (length stop) (c # cs) = stop then Some []
      else if c = newline then None
      else map_option ((#) c) (lazy_until stop cs))"

definition match_here :: "string \<Rightarrow> string option" where
  "match_here s =
     (case match_atoms regex_prefix s of None \<Rightarrow> None | Some rest \<Rightarrow> lazy_until regex_suffix rest)"

text \<open>
  \<open>re.search(regex_get_url_from_uri, s)\<close>: the match at the leftmost position that has
  one, given as its \<open>group(1)\<close>; \<open>None\<close> when there is no match.
\<close>

fun re_search :: "string \<Rightarrow> string option" where
  "re_search [] = match_here []"
| "re_search (c # cs) =
     (case match_here (c # cs) of Some g \<Rightarrow> Some g | None \<Rightarrow> re_search cs)"

text \<open>The first loop of \<open>check_and_get_links\<close>, lines 365 to 376.\<close>

fun links_of_attachments :: "library \<Rightarrow> FBParser \<Rightarrow> json list \<Rightarrow> error + FBParser" where
  "links_of_attachments L p [] = Inr p"
| "links_of_attachments L p (attachment # rest) =
     bind (py_getitem attachment ''attach_type'') (\<lambda>attach_type.
     bind (if attach_type = JStr ''share''
           then bind (py_getitem attachment ''share'') (\<lambda>share.
                bind (py_getitem share ''uri'') (\<lambda>uri. Inr (uri \<noteq> JNull)))
           else Inr False) (\<lambda>found.
     if found
     then
       bind (py_getitem attachment ''share'') (\<lambda>share.
       bind (py_getitem share ''uri'') (\<lambda>uri.
       bind (case uri of JStr s \<Rightarrow> Inr (re_search s) | _ \<Rightarrow> Inl TypeError) (\<lambda>match.
       bind (case match of
               Some group1 \<Rightarrow> Inr (unquote L group1 @ [newline])
             | None \<Rightarrow> py_add_str uri [newline]) (\<lambda>line.
       links_of_attachments L
         (p\<lparr>streams := (streams p)(LINKS := streams p LINKS @ line),
            counts := (counts p)(LINKS := counts p LINKS + 1)\<rparr>) rest))))
     else links_of_attachments L p rest))"

text \<open>The second loop, lines 378 to 380.\<close>

fun links_of_ranges :: "FBParser \<Rightarrow> json list \<Rightarrow> error + FBParser" where
  "links_of_ranges p [] = Inr p"
| "links_of_ranges p (link_range # rest) =
     bind (py_getitem link_range ''entity'') (\<lambda>entity.
     bind (py_getitem entity ''url'') (\<lambda>u.
     bind (py_add_str u [newline]) (\<lambda>line.
     links_of_ranges
       (p\<lparr>streams := (streams p)(LINKS := streams p LINKS @ line),
          counts := (counts p)(LINKS := counts p LINKS + 1)\<rparr>) rest)))"

definition check_and_get_links :: "library \<Rightarrow> FBParser \<Rightarrow> json \<Rightarrow> error + FBParser" where
  "check_and_get_links L p msg =
     bind (py_getitem msg ''attachments'') (\<lambda>attachments.
     bind (py_iter attachments) (\<lambda>as.
     bind (links_of_attachments L p as) (\<lambda>p1.
     bind (py_in ''ranges'' msg) (\<lambda>has_ranges.
     if has_ranges
     then bind (py_getitem msg ''ranges'') (\<lambda>ranges.
          bind (py_iter ranges) (links_of_ranges p1))
     else Inr p1))))"

section \<open>parser.py: the pass over the messages\<close>

text \<open>The list \<open>functions\<close> that \<open>parse\<close> builds from the requested data types.\<close>

definition parse_functions ::
  "library \<Rightarrow> FBDataTypes list \<Rightarrow> (FBParser \<Rightarrow> json \<Rightarrow> error + FBParser) list" where
  "parse_functions L data =
     (if ALL_DATA \<in> set data
      then [check_and_get_msg L, check_and_get_pics, check_and_get_gifs, check_and_get_videos,
            check_and_get_files, check_and_get_links L]
      else (if MESSAGES \<in> set data then [check_and_get_msg L] else [])
         @ (if PICTURES \<in> set data then [check_and_get_pics] else [])
         @ (if GIFS \<in> set data then [check_and_get_gifs] else [])
         @ (if VIDEOS \<in> set data then [check_and_get_videos] else [])
         @ (if FILES \<in> set data then [check_and_get_files] else [])
         @ (if LINKS \<in> set data then [check_and_get_links L] else []))"

fun apply_functions ::
  "(FBParser \<Rightarrow> json \<Rightarrow> error + FBParser) list \<Rightarrow> FBParser \<Rightarrow> json \<Rightarrow> error + FBParser" where
  "apply_functions [] p msg = Inr p"
| "apply_functions (function # functions) p msg =
     bind (function p msg) (\<lambda>p'. apply_functions functions p' msg)"

fun process_each ::
  "(FBParser \<Rightarrow> json \<Rightarrow> error + FBParser) list \<Rightarrow> FBParser \<Rightarrow> json list \<Rightarrow> error + FBParser" where
  "process_each functions p [] = Inr p"
| "process_each functions p (msg # rest) =
     bind (common_checks msg) (\<lambda>ok.
     if ok
     then bind (apply_functions functions p msg) (\<lambda>p'. process_each functions p' rest)
     else process_each functions p rest)"

definition process_msgs ::
  "(FBParser \<Rightarrow> json \<Rightarrow> error + FBParser) list \<Rightarrow> FBParser \<Rightarrow> json \<Rightarrow> error + FBParser" where
  "process_msgs functions p json_msgs = bind (py_iter json_msgs) (process_each functions p)"

section \<open>parser.py: waiting for the downloads\<close>

text \<open>
  What \<open>future.result()\<close> does for one download: it returns, or it raises the exception
  \<open>e\<close> of the worker, kept as \<open>str(e)\<close>. The two attributes of a \<open>PrintLoading\<close> thread
  that \<open>wait_threads\<close> writes are a record; the lines that the thread itself prints
  while it runs depend on time and have no place in the model.
\<close>

datatype outcome = Saved | Failed string

record PrintLoading =
  run_flag :: bool
  cnt :: int

text \<open>
  The \<open>for\<close> loop of lines 480 to 493. \<open>futures.as_completed\<close> yields every future of
  \<open>self.futures\<close> once, in the order in which the downloads finish; \<open>completed\<close> lists, in
  that order, the URL stored under each future and the outcome of the download. The
  \<open>finally\<close> clause runs on both ways out of the \<open>try\<close> statement.
\<close>

fun collect ::
  "bool \<Rightarrow> bool \<Rightarrow> (string \<times> outcome) list \<Rightarrow> world \<times> PrintLoading
     \<Rightarrow> (world \<times> PrintLoading) \<times> (error + unit)" where
  "collect to_stdout verbose [] (w, loading_thread) = ((w, loading_thread), Inr ())"
| "collect to_stdout verbose ((u, Saved) # rest) (w, loading_thread) =
     collect to_stdout verbose rest
       (if to_stdout \<and> verbose
        then w\<lparr>stdout := stdout w @ [''[+]     - File '' @ quote @ u @ quote @ '' saved'']\<rparr>
        else w,
        loading_thread\<lparr>cnt := cnt loading_thread - 1\<rparr>)"
| "collect to_stdout verbose ((u, Failed e) # rest) (w, loading_thread) =
     (if to_stdout
      then collect to_stdout verbose rest
             (w\<lparr>stdout := stdout w @
                  [''[+]     - File '' @ quote @ u @ quote @ '' generated an exception: '' @ e]\<rparr>,
              loading_thread\<lparr>cnt := cnt loading_thread - 1\<rparr>)
      else ((w, loading_thread\<lparr>cnt := cnt loading_thread - 1\<rparr>), Inl (DownloadError e)))"

definition wait_threads ::
  "FBParser \<Rightarrow> bool \<Rightarrow> bool \<Rightarrow> (string \<times> outcome) list \<Rightarrow> world
     \<Rightarrow> (world \<times> PrintLoading option) \<times> (error + unit)" where
  "wait_threads p to_stdout verbose completed w =
     (if mode p = DL
      then
        (let w1 = (if to_stdout
                   then w\<lparr>stdout := stdout w @
                          [''[+]     - Waiting for downloading threads to finished'']\<rparr>
                   else w);
             loading_thread = \<lparr>run_flag = True, cnt = int (length (futures p))\<rparr>
         in case collect to_stdout verbose completed (w1, loading_thread) of
              ((w2, loading_thread'), Inl e) \<Rightarrow> ((w2, Some loading_thread'), Inl e)
            | ((w2, loading_thread'), Inr u) \<Rightarrow>
                ((w2, Some (loading_thread'\<lparr>run_flag := False\<rparr>)), Inr ()))
      else ((w, None), Inr ()))"

section \<open>Sequences of answers\<close>

text \<open>
  A sequence of answers as a service: the request issued when \<open>base + n\<close> requests have
  been issued before it is answered with \<open>answers n\<close>.
\<close>

definition replay :: "(nat \<Rightarrow> json) \<Rightarrow> nat \<Rightarrow> service" where
  "replay answers base tr = answers (length tr - Suc base)"

text \<open>
  What an answer to a history request carries, read off the JSON document itself: the
  chunk of messages and whether the end flag is present. \<open>None\<close> for a document with an
  error indicator, or without a payload object that holds a list of actions.
\<close>

definition chunk_of :: "json \<Rightarrow> (json list \<times> bool) option" where
  "chunk_of a =
     (case a of
        JObj kvs \<Rightarrow>
          (case (map_of kvs ''error'', map_of kvs ''payload'') of
             (None, Some (JObj pl)) \<Rightarrow>
               (case map_of pl ''actions'' of
                  Some (JArr acts) \<Rightarrow> Some (acts, map_of pl end_flag \<noteq> None)
                | _ \<Rightarrow> None)
           | _ \<Rightarrow> None)
      | _ \<Rightarrow> None)"

text \<open>The timestamp field of the first record of a chunk, if there is one.\<close>

definition first_timestamp :: "json list \<Rightarrow> json option" where
  "first_timestamp acts = (case acts of JObj m # rest \<Rightarrow> map_of m ''timestamp'' | _ \<Rightarrow> None)"

text \<open>\<open>older a b\<close>: both records carry an integer timestamp and the one of \<open>a\<close> is smaller.\<close>

definition int_timestamp :: "json \<Rightarrow> int option" where
  "int_timestamp m =
     (case m of
        JObj kvs \<Rightarrow> (case map_of kvs ''timestamp'' of Some (JNum n) \<Rightarrow> Some n | _ \<Rightarrow> None)
      | _ \<Rightarrow> None)"

definition older :: "json \<Rightarrow> json \<Rightarrow> bool" where
  "older a b =
     (case (int_timestamp a, int_timestamp b) of (Some x, Some y) \<Rightarrow> x < y | _ \<Rightarrow> False)"

section \<open>Listing pages\<close>

text \<open>
  What an answer to a listing request carries, read off the JSON document itself: the
  list of threads and the list of participants. \<open>None\<close> for a document with an error
  indicator, or without a payload object that holds the two lists.
\<close>

definition listing_of :: "json \<Rightarrow> (json list \<times> json list) option" where
  "listing_of a =
     (case a of
        JObj kvs \<Rightarrow>
          (case (map_of kvs ''error'', map_of kvs ''payload'') of
             (None, Some (JObj pl)) \<Rightarrow>
               (case (map_of pl ''threads'', map_of pl ''participants'') of
                  (Some (JArr ths), Some (JArr pts)) \<Rightarrow> Some (ths, pts)
                | _ \<Rightarrow> None)
           | _ \<Rightarrow> None)
      | _ \<Rightarrow> None)"

text \<open>A participant record with both fields the crawl reads, the identifier hashable.\<close>

definition participant_ok :: "json \<Rightarrow> bool" where
  "participant_ok p =
     (case p of
        JObj kv \<Rightarrow>
          (case (map_of kv ''name'', map_of kv ''fbid'') of
             (Some n, Some f) \<Rightarrow> hashable f
           | _ \<Rightarrow> False)
      | _ \<Rightarrow> False)"

text \<open>\<open>has_fbid pts u\<close>: some participant record of \<open>pts\<close> has an identifier equal to \<open>u\<close>.\<close>

definition has_fbid :: "json list \<Rightarrow> json \<Rightarrow> bool" where
  "has_fbid pts u =
     (\<exists>p \<in> set pts.
        case p of
          JObj kv \<Rightarrow> (case map_of kv ''fbid'' of Some f \<Rightarrow> dict_key f = dict_key u | None \<Rightarrow> False)
        | _ \<Rightarrow> False)"

text \<open>The identifier of a thread record, when it is a string.\<close>

definition thread_id :: "json \<Rightarrow> string option" where
  "thread_id c =
     (case c of
        JObj kv \<Rightarrow> (case map_of kv ''thread_fbid'' of Some (JStr s) \<Rightarrow> Some s | _ \<Rightarrow> None)
      | _ \<Rightarrow> None)"

text \<open>
  A thread record with every field the crawl reads from it: the type; the name of a
  group (type 2); for a direct conversation (type 1) the identifier of the other user,
  who is among the participants \<open>pts\<close> of the same page; the participants; the last
  timestamp; a string identifier.
\<close>

definition thread_ok :: "json list \<Rightarrow> json \<Rightarrow> bool" where
  "thread_ok pts c =
     (case c of
        JObj kv \<Rightarrow>
          (case map_of kv ''thread_type'' of
             None \<Rightarrow> False
           | Some tt \<Rightarrow>
               (if py_eq_int tt 2 then map_of kv ''name'' \<noteq> None
                else if py_eq_int tt 1 then
                  (case map_of kv ''other_user_fbid'' of
                     None \<Rightarrow> False
                   | Some u \<Rightarrow> hashable u \<and> has_fbid pts u)
                else True))
          \<and> map_of kv ''participants'' \<noteq> None
          \<and> map_of kv ''last_message_timestamp'' \<noteq> None
          \<and> thread_id c \<noteq> None
      | _ \<Rightarrow> False)"

text \<open>A record that is an object and lacks a field the crawl reads from it.\<close>

definition participant_field_missing :: "json \<Rightarrow> bool" where
  "participant_field_missing p =
     (case p of
        JObj kv \<Rightarrow> map_of kv ''name'' = None \<or> map_of kv ''fbid'' = None
      | _ \<Rightarrow> False)"

definition thread_field_missing :: "json \<Rightarrow> bool" where
  "thread_field_missing c =
     (case c of
        JObj kv \<Rightarrow>
          (case map_of kv ''thread_type'' of
             None \<Rightarrow> True
           | Some tt \<Rightarrow>
               (py_eq_int tt 2 \<and> map_of kv ''name'' = None)
               \<or> (\<not> py_eq_int tt 2 \<and> py_eq_int tt 1 \<and> map_of kv ''other_user_fbid'' = None)
               \<or> map_of kv ''participants'' = None
               \<or> map_of kv ''last_message_timestamp'' = None
               \<or> map_of kv ''thread_fbid'' = None)
      | _ \<Rightarrow> False)"

text \<open>A page whose records are all as the crawl needs them.\<close>

definition page_ok :: "json list \<times> json list \<Rightarrow> bool" where
  "page_ok pg =
     ((\<forall>p \<in> set (snd pg). participant_ok p) \<and> (\<forall>c \<in> set (fst pg). thread_ok (snd pg) c))"

text \<open>The string identifiers of the thread records of a list of pages, in order.\<close>

definition page_ids :: "(json list \<times> json list) list \<Rightarrow> string list" where
  "page_ids pages = List.map_filter thread_id (concat (map fst pages))"

text \<open>The request the listing crawl issues for a status at an offset.\<close>

definition listing_request_at ::
  "(string \<times> string) list \<Rightarrow> (string \<times> json) list \<Rightarrow> int \<Rightarrow> string \<Rightarrow> int \<Rightarrow> request \<Rightarrow> bool" where
  "listing_request_at hdrs pd csz status offset r =
     (case list_data status offset csz of
        Inl e \<Rightarrow> False
      | Inr dat \<Rightarrow> r = \<lparr>url = url_convers_list, req_headers = hdrs,
                         req_data = dict_update_all dat pd\<rparr>)"

section \<open>Sample inputs\<close>

text \<open>Raw request data holding the seven fields \<open>get_post_data\<close> looks for.\<close>

definition sample_raw_data :: string where
  "sample_raw_data =
     ''cookie:c'' @ [newline] @ ''__user:u'' @ [newline] @ ''__a:1'' @ [newline] @
     ''__dyn:d'' @ [newline] @ ''__req:r'' @ [newline] @ ''fb_dtsg:t'' @ [newline] @
     ''__rev:v'' @ [newline]"

text \<open>A service with no conversation at all: every listing page is empty.\<close>

definition empty_listing :: service where
  "empty_listing tr =
     JObj [(''payload'', JObj [(''threads'', JArr []), (''participants'', JArr [])])]"

text \<open>
  A dumper whose index holds the single group conversation \<open>a\<close>, asked for the
  identifiers \<open>a\<close> and \<open>zzz\<close>; a stand-in for \<open>unidecode\<close> that returns a string as it
  is; the world before anything happened.
\<close>

definition sample_convers :: conversation where
  "sample_convers =
     \<lparr>c_type = Some GROUP, c_name = Some (JStr ''A''), c_status = Some ''inbox'',
      c_participants = Some (JArr []), c_last_message_timestamp = Some (JNum 5)\<rparr>"

definition sample_dumper :: FBDumper where
  "sample_dumper =
     \<lparr>convers_ids = Some [''a'', ''zzz''], user_raw_data = [], chunk_size = 2, timer = 0,
      output_folder = ''output/'', headers = [], post_data = [],
      convers = [(JStr ''a'', sample_convers)], participants = []\<rparr>"

definition sample_unidecode :: "json \<Rightarrow> string option" where
  "sample_unidecode j = (case j of JStr s \<Rightarrow> Some s | _ \<Rightarrow> None)"

definition empty_world :: world where
  "empty_world = \<lparr>requests = [], stdout = [], files = []\<rparr>"

text \<open>A service whose every answer is one message together with the end flag.\<close>

definition one_chunk :: service where
  "one_chunk tr =
     JObj [(''payload'',
            JObj [(''actions'', JArr [JObj [(''timestamp'', JNum 1)]]),
                  (''end_of_history'', JBool True)])]"

text \<open>
  Sample answers: a record with the timestamp \<open>n\<close>, the answer that carries a chunk, and
  four sources. \<open>three_chunks\<close> pages backwards through six records, oldest first inside
  each chunk; \<open>newest_first_chunks\<close> does the same with the newest record first inside
  each chunk; \<open>endless\<close> never sends the end flag; \<open>empty_pages\<close> sends empty pages
  without the end flag.
\<close>

definition msg :: "int \<Rightarrow> json" where
  "msg n = JObj [(''timestamp'', JNum n)]"

definition chunk_answer :: "json list \<Rightarrow> bool \<Rightarrow> json" where
  "chunk_answer acts ended =
     JObj [(''payload'',
            JObj ((''actions'', JArr acts) #
                  (if ended then [(''end_of_history'', JBool True)] else [])))]"

definition three_chunks :: "nat \<Rightarrow> json" where
  "three_chunks i =
     (if i = 0 then chunk_answer [msg 5, msg 6] False
      else if i = 1 then chunk_answer [msg 3, msg 4] False
      else if i = 2 then chunk_answer [msg 1, msg 2] True
      else JNull)"

definition newest_first_chunks :: "nat \<Rightarrow> json" where
  "newest_first_chunks i =
     (if i = 0 then chunk_answer [msg 6, msg 5] False
      else if i = 1 then chunk_answer [msg 4, msg 3] False
      else if i = 2 then chunk_answer [msg 2, msg 1] True
      else JNull)"

definition endless :: "nat \<Rightarrow> json" where
  "endless i = chunk_answer [msg (- int i)] False"

definition empty_pages :: "nat \<Rightarrow> json" where
  "empty_pages i = chunk_answer [] False"

text \<open>
  Sample listing records and a source of two pages for the page size 2: a group and a
  direct conversation, then one more group.
\<close>

definition group_thread :: "string \<Rightarrow> json" where
  "group_thread i =
     JObj [(''thread_type'', JNum 2), (''name'', JStr ''group''), (''participants'', JArr []),
           (''last_message_timestamp'', JNum 0), (''thread_fbid'', JStr i)]"

definition direct_thread :: "string \<Rightarrow> string \<Rightarrow> json" where
  "direct_thread i u =
     JObj [(''thread_type'', JNum 1), (''other_user_fbid'', JStr u), (''participants'', JArr []),
           (''last_message_timestamp'', JNum 0), (''thread_fbid'', JStr i)]"

definition participant :: "string \<Rightarrow> string \<Rightarrow> json" where
  "participant u n = JObj [(''fbid'', JStr u), (''name'', JStr n)]"

definition listing_answer :: "json list \<Rightarrow> json list \<Rightarrow> json" where
  "listing_answer ths pts =
     JObj [(''payload'', JObj [(''threads'', JArr ths), (''participants'', JArr pts)])]"

definition two_pages :: "nat \<Rightarrow> json" where
  "two_pages i =
     (if i = 0 then listing_answer [group_thread ''1'', direct_thread ''2'' ''u1'']
                      [participant ''u1'' ''Ann'']
      else if i = 1 then listing_answer [group_thread ''3''] []
      else JNull)"

text \<open>
  A page whose only thread record is a group without its name, next to a well-formed
  participant record; and a service that answers every request with this page.
\<close>

definition nameless_group_page :: json where
  "nameless_group_page =
     listing_answer
       [JObj [(''thread_type'', JNum 2), (''participants'', JArr []),
              (''last_message_timestamp'', JNum 0), (''thread_fbid'', JStr ''9'')]]
       [participant ''u1'' ''Ann'']"

definition malformed_listing :: service where
  "malformed_listing tr = nameless_group_page"

text \<open>
  A page with one participant, a well-formed group and then a group without a name.
\<close>

definition half_good_page :: json where
  "half_good_page =
     listing_answer
       [group_thread ''1'',
        JObj [(''thread_type'', JNum 2), (''participants'', JArr []),
              (''last_message_timestamp'', JNum 0), (''thread_fbid'', JStr ''9'')]]
       [participant ''u1'' ''Ann'']"

section \<open>Messages and attachments\<close>

text \<open>
  What the parser reads in a message, taken off the decoded document: the value under
  a key of an object (\<open>None\<close> when the key is missing or the document is no object), and
  the string under a key.
\<close>

definition attr :: "string \<Rightarrow> json \<Rightarrow> json option" where
  "attr k v = (case v of JObj kvs \<Rightarrow> map_of kvs k | _ \<Rightarrow> None)"

definition str_attr :: "string \<Rightarrow> json \<Rightarrow> string" where
  "str_attr k v = (case attr k v of Some (JStr s) \<Rightarrow> s | _ \<Rightarrow> [])"

text \<open>
  An attachment counts for a media category when its type is the kind of the category
  and its URL is there and not null.
\<close>

definition eligible :: "string \<Rightarrow> string \<Rightarrow> json \<Rightarrow> bool" where
  "eligible kind url_key a =
     (attr ''attach_type'' a = Some (JStr kind) \<and>
      (case attr url_key a of None \<Rightarrow> False | Some u \<Rightarrow> u \<noteq> JNull))"

text \<open>
  An attachment is well formed for a media category when it has a type and, if the
  type is the kind of the category, its URL is null or a string; in download mode a
  counted attachment also has a string for its name.
\<close>

definition media_ok :: "FBParserMode \<Rightarrow> string \<Rightarrow> string \<Rightarrow> json \<Rightarrow> bool" where
  "media_ok m kind url_key a =
     (case attr ''attach_type'' a of
        None \<Rightarrow> False
      | Some t \<Rightarrow>
          t = JStr kind \<longrightarrow>
            (case attr url_key a of
               Some JNull \<Rightarrow> True
             | Some (JStr u) \<Rightarrow>
                 m = DL \<longrightarrow> (case attr ''name'' a of Some (JStr n) \<Rightarrow> True | _ \<Rightarrow> False)
             | _ \<Rightarrow> False))"

text \<open>
  The four media functions, each with the attachment type it looks for, the key it
  reads the URL from and its data type.
\<close>

definition media_functions ::
  "((FBParser \<Rightarrow> json \<Rightarrow> error + FBParser) \<times> string \<times> string \<times> FBDataTypes) list" where
  "media_functions =
     [(check_and_get_pics, ''photo'', ''preview_url'', PICTURES),
      (check_and_get_gifs, ''animated_image'', ''preview_url'', GIFS),
      (check_and_get_videos, ''video'', ''url'', VIDEOS),
      (check_and_get_files, ''file'', ''url'', FILES)]"

section \<open>Sample messages\<close>

text \<open>
  A parser that has read nothing yet, in report mode and in download mode; a message
  with a photo that has a URL and a file that has none.
\<close>

definition report_parser :: FBParser where
  "report_parser =
     \<lparr>mode = REPORT, output_convers = ''output/a - A/'',
      parser_participants = [(JStr ''1'', JStr ''Ann'')],
      streams = (\<lambda>dt. []), counts = (\<lambda>dt. 0), futures = []\<rparr>"

definition dl_parser :: FBParser where
  "dl_parser = report_parser\<lparr>mode := DL\<rparr>"

definition photo :: json where
  "photo =
     JObj [(''attach_type'', JStr ''photo''), (''preview_url'', JStr ''https://cdn/p.jpg''),
           (''name'', JStr ''p.jpg'')]"

definition file_without_url :: json where
  "file_without_url =
     JObj [(''attach_type'', JStr ''file''), (''url'', JNull), (''name'', JStr ''doc.pdf'')]"

definition photo_and_file :: json where
  "photo_and_file =
     JObj [(''action_type'', JStr ''ma-type:user-generated-message''),
           (''attachments'', JArr [photo, file_without_url])]"

section \<open>The line of a message\<close>

text \<open>
  An attachment is well formed for the line of a message when it has a type and, unless
  the type is \<open>error\<close>, a name.
\<close>

definition named :: "json \<Rightarrow> bool" where
  "named a =
     (case attr ''attach_type'' a of
        None \<Rightarrow> False
      | Some t \<Rightarrow> t \<noteq> JStr ''error'' \<longrightarrow> attr ''name'' a \<noteq> None)"

text \<open>
  The joined names of the attachments whose type is not \<open>error\<close>, each followed by a
  space; and the name the participant directory holds for an identifier, the empty
  string when it holds none.
\<close>

definition names_of :: "library \<Rightarrow> json list \<Rightarrow> string" where
  "names_of L atts =
     concat (map (\<lambda>a. case attr ''name'' a of Some n \<Rightarrow> py_str_any L n @ '' '' | None \<Rightarrow> [])
               (filter (\<lambda>a. attr ''attach_type'' a \<noteq> Some (JStr ''error'')) atts))"

definition username_of :: "library \<Rightarrow> participant_dir \<Rightarrow> string \<Rightarrow> string" where
  "username_of L ps fbid =
     (case dict_find ps (JStr fbid) of None \<Rightarrow> [] | Some n \<Rightarrow> py_str_any L n)"

section \<open>A sample library\<close>

text \<open>
  A stand-in for \<open>urllib.parse.unquote\<close> that is right on the escapes of ASCII
  characters: \<open>%\<close> and two hexadecimal digits are the character with that code.
\<close>

fun hex_digit :: "char \<Rightarrow> nat option" where
  "hex_digit c =
     (let n = of_char c
      in if 48 \<le> n \<and> n \<le> 57 then Some (n - 48)
         else if 65 \<le> n \<and> n \<le> 70 then Some (n - 55)
         else if 97 \<le> n \<and> n \<le> 102 then Some (n - 87)
         else None)"

fun percent_decode :: "string \<Rightarrow> string" where
  "percent_decode (c # h # l # cs) =
     (if c = CHR ''%''
      then (case (hex_digit h, hex_digit l) of
              (Some a, Some b) \<Rightarrow> char_of (16 * a + b) # percent_decode cs
            | _ \<Rightarrow> c # percent_decode (h # l # cs))
      else c # percent_decode (h # l # cs))"
| "percent_decode cs = cs"

text \<open>
  Stand-ins for the library functions: \<open>repr\<close> puts a string between single quotes,
  and the clock knows the epoch only.
\<close>

definition sample_library :: library where
  "sample_library =
     \<lparr>py_repr = (\<lambda>v. quote @ py_str v @ quote),
      str_container = (\<lambda>v. ''[]''),
      fromtimestamp_strftime = (\<lambda>ms. if ms = 0 then Some ''1970-01-01 00:00:00'' else None),
      unquote = percent_decode\<rparr>"

text \<open>A message with one photo, written by somebody the directory does not hold.\<close>

definition message_of_stranger :: json where
  "message_of_stranger =
     JObj [(''action_type'', JStr ''ma-type:user-generated-message''),
           (''attachments'', JArr [photo]),
           (''author'', JStr ''fbid:42''),
           (''body'', JStr ''hi''),
           (''timestamp'', JNum 0)]"

section \<open>Links of a message\<close>








text \<open>
  A message with a share whose URI wraps \<open>https://example.com/x\<close>, a photo, a share with
  a plain URI, and one inline range.
\<close>

definition share :: "string \<Rightarrow> json" where
  "share u = JObj [(''attach_type'', JStr ''share''), (''share'', JObj [(''uri'', JStr u)])]"

definition link_range :: "string \<Rightarrow> json" where
  "link_range u = JObj [(''entity'', JObj [(''url'', JStr u)])]"


section \<open>Outcomes of downloads\<close>




section \<open>Properties of the constructor\<close>

text \<open>
  C9, as the code has it. The constructor checks in this order: exactly one of the raw
  string and the file path is truthy (else ValueError); the file is read when the path
  is the one given (\<open>open\<close> may fail, before anything else is checked); the chunk size
  is positive (else ValueError); the timer is not negative (else ValueError). In each
  of these failures the list of requests is returned as it was given, so no request
  is issued, and the result holds no object. When an object is returned, it stores
  the given chunk size and timer, and the three conditions held.
\<close>

theorem init_validation:
  "(truthy raw = truthy infile \<longrightarrow>
      FBDumper_init fuel srv read_file ids raw infile csize tmr out tr
        = (tr, Some (Inl ValueError)))
   \<and> (load_raw_data read_file raw infile = Inr s \<and> (csize \<le> 0 \<or> tmr < 0) \<longrightarrow>
      FBDumper_init fuel srv read_file ids raw infile csize tmr out tr
        = (tr, Some (Inl ValueError)))
   \<and> (\<not> truthy raw \<and> infile = Some path \<and> path \<noteq> [] \<and> read_file path = None \<longrightarrow>
      FBDumper_init fuel srv read_file ids raw infile csize tmr out tr
        = (tr, Some (Inl OSError)))
   \<and> (FBDumper_init fuel srv read_file ids raw infile csize tmr out tr = (tr', Some (Inr d)) \<longrightarrow>
      chunk_size d = csize \<and> timer d = tmr \<and> truthy raw \<noteq> truthy infile
      \<and> 0 < csize \<and> 0 \<le> tmr)"
  by (auto simp: FBDumper_init_def load_raw_data_def
      split: sum.splits if_splits option.splits prod.splits)

text \<open>
  The four cases at concrete arguments: neither source given; the raw string given
  with chunk size 0; a path that cannot be read; and a construction that succeeds
  against the empty listing.
\<close>

theorem init_validation_witness:
  "FBDumper_init 1 empty_listing (\<lambda>p. None) None None None 2000 1 ''output'' []
     = ([], Some (Inl ValueError))
   \<and> FBDumper_init 1 empty_listing (\<lambda>p. None) None (Some sample_raw_data) None 0 1 ''output'' []
     = ([], Some (Inl ValueError))
   \<and> FBDumper_init 1 empty_listing (\<lambda>p. None) None None (Some ''request_data.txt'') 2000 1
        ''output'' []
     = ([], Some (Inl OSError))
   \<and> (case FBDumper_init 1 empty_listing (\<lambda>p. None) None (Some sample_raw_data) None 2000 1
             ''output'' [] of
         (tr', Some (Inr d)) \<Rightarrow> chunk_size d = 2000 \<and> timer d = 1
       | _ \<Rightarrow> False)"
proof -
  have a: "FBDumper_init 1 empty_listing (\<lambda>p. None) None None None 2000 1 ''output'' []
             = ([], Some (Inl ValueError))"
    using init_validation [where raw = None and infile = None and fuel = 1
        and srv = empty_listing and read_file = "\<lambda>p. None" and ids = None and csize = 2000
        and tmr = 1 and out = "''output''" and tr = "[]"]
    by simp
  have "load_raw_data (\<lambda>p. None) (Some sample_raw_data) None = Inr sample_raw_data"
    by (simp add: load_raw_data_def sample_raw_data_def)
  then have b: "FBDumper_init 1 empty_listing (\<lambda>p. None) None (Some sample_raw_data) None 0 1
                  ''output'' [] = ([], Some (Inl ValueError))"
    using init_validation [where raw = "Some sample_raw_data" and infile = None and fuel = 1
        and srv = empty_listing and read_file = "\<lambda>p. None" and ids = None and csize = 0
        and tmr = 1 and out = "''output''" and tr = "[]" and s = sample_raw_data]
    by simp
  have c: "FBDumper_init 1 empty_listing (\<lambda>p. None) None None (Some ''request_data.txt'') 2000 1
             ''output'' [] = ([], Some (Inl OSError))"
    using init_validation [where raw = None and infile = "Some ''request_data.txt''"
        and fuel = 1 and srv = empty_listing and read_file = "\<lambda>p. None" and ids = None
        and csize = 2000 and tmr = 1 and out = "''output''" and tr = "[]"
        and path = "''request_data.txt''"]
    by simp
  have "case FBDumper_init 1 empty_listing (\<lambda>p. None) None (Some sample_raw_data) None 2000 1
               ''output'' [] of
          (tr', Some (Inr d)) \<Rightarrow> True
        | _ \<Rightarrow> False"
    by code_simp
  then obtain tr' d where
    e: "FBDumper_init 1 empty_listing (\<lambda>p. None) None (Some sample_raw_data) None 2000 1
          ''output'' [] = (tr', Some (Inr d))"
    by (auto split: prod.splits option.splits sum.splits)
  have "chunk_size d = 2000 \<and> timer d = 1"
    using e init_validation [where raw = "Some sample_raw_data" and infile = None and fuel = 1
        and srv = empty_listing and read_file = "\<lambda>p. None" and ids = None and csize = 2000
        and tmr = 1 and out = "''output''" and tr = "[]" and tr' = tr' and d = d]
    by simp
  then show ?thesis
    using a b c e by simp
qed

text \<open>
  C9 as stated fails where the file cannot be read: with the path of an unreadable
  file as the only source and the chunk size 0 (not strictly positive), the
  constructor fails with the error of \<open>open\<close>, not with ValueError.
\<close>

theorem init_unreadable_file_counterexample:
  "FBDumper_init 1 empty_listing (\<lambda>p. None) None None (Some ''request_data.txt'') 0 1 ''output'' []
     = ([], Some (Inl OSError))"
  by (simp add: FBDumper_init_def load_raw_data_def)

section \<open>Which errors the history crawl can raise\<close>

lemma bindE: "bind m f = Inl e \<Longrightarrow> m = Inl e \<or> (\<exists>x. m = Inr x \<and> f x = Inl e)"
  by (auto simp: bind_def split: sum.splits)

lemma py_getitem_err: "py_getitem j k = Inl e \<Longrightarrow> e = TypeError \<or> e = KeyError (JStr k)"
  by (cases j) (auto split: option.splits)

lemma py_in_err: "py_in k j = Inl e \<Longrightarrow> e = TypeError"
  by (cases j) auto

lemma py_first_err:
  "py_first j = Inl e \<Longrightarrow> e = TypeError \<or> e = IndexError \<or> e = KeyError (JNum 0)"
  by (cases j rule: py_first.cases) auto

lemma py_add_list_err: "py_add_list j ms = Inl e \<Longrightarrow> e = TypeError"
  by (cases j) auto

lemma dict_get_err: "dict_get d k = Inl e \<Longrightarrow> e = TypeError \<or> e = KeyError k"
  by (auto simp: dict_get_def split: if_splits option.splits)

lemma history_ended_err: "history_ended j = Inl e \<Longrightarrow> e \<noteq> FBUnknownConvers x"
  unfolding history_ended_def
  by (auto dest!: bindE py_getitem_err py_in_err)

lemma take_chunk_err: "take_chunk j ms = Inl e \<Longrightarrow> e \<noteq> FBUnknownConvers x"
  unfolding take_chunk_def
  by (auto dest!: bindE py_getitem_err py_first_err py_add_list_err)

lemma build_data_err: "build_data d c t off ts = Inl e \<Longrightarrow> e \<noteq> FBUnknownConvers x"
  unfolding build_data_def
  by (auto split: option.splits json.splits)

lemma make_request_err:
  "make_request srv h u dat tr = (tr', Inl e) \<Longrightarrow> e \<noteq> FBUnknownConvers x"
  unfolding make_request_def Let_def
  by (auto dest!: bindE py_getitem_err py_in_err split: if_splits)

lemma convers_name_err: "convers_name U d c = Inl e \<Longrightarrow> e \<noteq> FBUnknownConvers x"
  unfolding convers_name_def
  by (auto dest!: bindE dict_get_err split: option.splits)

lemma time_sleep_err: "time_sleep secs = Inl e \<Longrightarrow> e \<noteq> FBUnknownConvers x"
  by (auto simp: time_sleep_def split: if_splits)

lemma history_loop_err:
  "history_loop fuel srv d ts c cur off tm ms jd w = (w', Some (Inl e))
   \<Longrightarrow> e \<noteq> FBUnknownConvers x"
proof (induction fuel arbitrary: off tm ms jd w)
  case 0
  then show ?case by simp
next
  case (Suc fuel)
  show ?case
    using Suc.prems Suc.IH
    by (auto simp: Let_def split: sum.splits bool.splits prod.splits option.splits if_splits
        dest: history_ended_err take_chunk_err build_data_err make_request_err time_sleep_err
        dest!: bindE)
qed

section \<open>Unknown conversations\<close>

lemma dump_convers_absent:
  "dict_find (convers d) (JStr cid) = None \<Longrightarrow>
   dump_convers fuel srv U d ts (JStr cid) w = (w, Some (Inl (FBUnknownConvers (JStr cid))))"
  by (simp add: dump_convers_def dict_contains_def)

lemma dump_convers_present:
  assumes "dict_find (convers d) (JStr cid) \<noteq> None"
  shows "snd (dump_convers fuel srv U d ts (JStr cid) w) \<noteq> Some (Inl (FBUnknownConvers x))"
proof
  assume "snd (dump_convers fuel srv U d ts (JStr cid) w) = Some (Inl (FBUnknownConvers x))"
  then obtain w' where
    "dump_convers fuel srv U d ts (JStr cid) w = (w', Some (Inl (FBUnknownConvers x)))"
    by (cases "dump_convers fuel srv U d ts (JStr cid) w") auto
  then show False
    using assms
    by (auto simp: dump_convers_def dict_contains_def
        split: sum.splits bool.splits prod.splits option.splits if_splits
        dest: history_loop_err convers_name_err dict_get_err dest!: bindE)
qed

lemma dump_each_append:
  "dump_each fuel srv U d ts pre w = (w1, Some (Inr u)) \<Longrightarrow>
   dump_each fuel srv U d ts (pre @ cs) w = dump_each fuel srv U d ts cs w1"
proof (induction pre arbitrary: w)
  case Nil
  then show ?case by simp
next
  case (Cons c pre)
  then show ?case
    by (auto split: prod.splits option.splits sum.splits)
qed

lemma dump_each_present:
  "\<forall>i \<in> set ids. dict_find (convers d) (JStr i) \<noteq> None \<Longrightarrow>
   snd (dump_each fuel srv U d ts (map JStr ids) w) \<noteq> Some (Inl (FBUnknownConvers x))"
proof (induction ids arbitrary: w)
  case Nil
  then show ?case by simp
next
  case (Cons i ids)
  have "snd (dump_convers fuel srv U d ts (JStr i) w) \<noteq> Some (Inl (FBUnknownConvers x))"
    using Cons.prems by (intro dump_convers_present) simp
  then show ?case
    using Cons.IH Cons.prems
    by (auto split: prod.splits option.splits sum.splits)
qed

text \<open>
  C7. An identifier that is not a key of the index makes the body of the \<open>for\<close> loop of
  \<open>dump\<close> fail with \<open>FBUnknownConvers\<close> for that identifier, and the world is returned as
  it was: no request was issued, nothing printed, nothing written. \<open>dump\<close> takes the
  requested identifiers in order, so it fails in this way once the identifiers before
  the unknown one have been dumped, in the world they left. An identifier that is a key
  of the index never makes the body fail with \<open>FBUnknownConvers\<close>, whatever the service
  answers, and neither does \<open>dump\<close> when every requested identifier is a key.
\<close>

theorem unknown_conversation_rejected:
  "(dict_find (convers d) (JStr cid) = None \<longrightarrow>
      dump_convers fuel srv U d to_stdout (JStr cid) w
        = (w, Some (Inl (FBUnknownConvers (JStr cid)))))
   \<and> (dict_find (convers d) (JStr cid) = None \<and> convers_ids d = Some (pre @ cid # post)
       \<and> dump_each fuel srv U d to_stdout (map JStr pre) w = (w1, Some (Inr ())) \<longrightarrow>
      dump fuel srv U d to_stdout w = (w1, Some (Inl (FBUnknownConvers (JStr cid)))))
   \<and> (dict_find (convers d) (JStr cid) \<noteq> None \<longrightarrow>
      snd (dump_convers fuel srv U d to_stdout (JStr cid) w)
        \<noteq> Some (Inl (FBUnknownConvers x)))
   \<and> (convers_ids d = Some ids \<and> ids \<noteq> []
       \<and> (\<forall>i \<in> set ids. dict_find (convers d) (JStr i) \<noteq> None) \<longrightarrow>
      snd (dump fuel srv U d to_stdout w) \<noteq> Some (Inl (FBUnknownConvers x)))"
proof (intro conjI impI)
  assume "dict_find (convers d) (JStr cid) = None"
  then show "dump_convers fuel srv U d to_stdout (JStr cid) w
        = (w, Some (Inl (FBUnknownConvers (JStr cid))))"
    by (rule dump_convers_absent)
next
  assume a: "dict_find (convers d) (JStr cid) = None \<and> convers_ids d = Some (pre @ cid # post)
       \<and> dump_each fuel srv U d to_stdout (map JStr pre) w = (w1, Some (Inr ()))"
  then have ids: "dump_ids d = map JStr pre @ JStr cid # map JStr post"
    by (cases pre) (simp_all add: dump_ids_def)
  show "dump fuel srv U d to_stdout w = (w1, Some (Inl (FBUnknownConvers (JStr cid))))"
    using a by (simp add: dump_def ids dump_each_append dump_convers_absent)
next
  assume "dict_find (convers d) (JStr cid) \<noteq> None"
  then show "snd (dump_convers fuel srv U d to_stdout (JStr cid) w)
        \<noteq> Some (Inl (FBUnknownConvers x))"
    by (rule dump_convers_present)
next
  assume a: "convers_ids d = Some ids \<and> ids \<noteq> []
       \<and> (\<forall>i \<in> set ids. dict_find (convers d) (JStr i) \<noteq> None)"
  then have ids: "dump_ids d = map JStr ids"
    by (cases ids) (simp_all add: dump_ids_def)
  show "snd (dump fuel srv U d to_stdout w) \<noteq> Some (Inl (FBUnknownConvers x))"
    using a by (simp add: dump_def ids dump_each_present)
qed

text \<open>
  The sample dumper is asked for \<open>a\<close>, which is in its index, and then for \<open>zzz\<close>, which
  is not: \<open>a\<close> is dumped with one request, then \<open>dump\<close> fails for \<open>zzz\<close> and the count of
  requests is still one. Asked for \<open>a\<close> alone, \<open>dump\<close> does not fail in this way.
\<close>

theorem unknown_conversation_rejected_witness:
  "dump_convers 3 one_chunk sample_unidecode sample_dumper False (JStr ''zzz'') empty_world
     = (empty_world, Some (Inl (FBUnknownConvers (JStr ''zzz''))))
   \<and> snd (dump 3 one_chunk sample_unidecode sample_dumper False empty_world)
       = Some (Inl (FBUnknownConvers (JStr ''zzz'')))
   \<and> length (requests (fst (dump 3 one_chunk sample_unidecode sample_dumper False empty_world)))
       = 1
   \<and> snd (dump_convers 3 one_chunk sample_unidecode sample_dumper False (JStr ''a'') empty_world)
       \<noteq> Some (Inl (FBUnknownConvers (JStr ''a'')))
   \<and> snd (dump 3 one_chunk sample_unidecode (sample_dumper\<lparr>convers_ids := Some [''a'']\<rparr>) False
            empty_world)
       \<noteq> Some (Inl (FBUnknownConvers (JStr ''a'')))"
proof -
  have absent: "dict_find (convers sample_dumper) (JStr ''zzz'') = None"
    and present: "dict_find (convers sample_dumper) (JStr ''a'') \<noteq> None"
    and ids: "convers_ids sample_dumper = Some ([''a''] @ ''zzz'' # [])"
    by (simp_all add: sample_dumper_def)
  have "case dump_each 3 one_chunk sample_unidecode sample_dumper False (map JStr [''a''])
               empty_world of
          (w1, Some (Inr u)) \<Rightarrow> length (requests w1) = 1
        | _ \<Rightarrow> False"
    by code_simp
  then obtain w1 where
    pre: "dump_each 3 one_chunk sample_unidecode sample_dumper False (map JStr [''a''])
            empty_world = (w1, Some (Inr ()))"
    and one: "length (requests w1) = 1"
    by (auto split: prod.splits option.splits sum.splits)
  note inst = unknown_conversation_rejected [where fuel = 3 and srv = one_chunk
      and U = sample_unidecode and to_stdout = False and w = empty_world]
  have a: "dump_convers 3 one_chunk sample_unidecode sample_dumper False (JStr ''zzz'')
             empty_world = (empty_world, Some (Inl (FBUnknownConvers (JStr ''zzz''))))"
    using absent inst [where d = sample_dumper and cid = "''zzz''"] by simp
  have b: "dump 3 one_chunk sample_unidecode sample_dumper False empty_world
             = (w1, Some (Inl (FBUnknownConvers (JStr ''zzz''))))"
    using absent ids pre
      inst [where d = sample_dumper and cid = "''zzz''" and pre = "[''a'']" and post = "[]"
        and ?w1.0 = w1]
    by simp
  have c: "snd (dump_convers 3 one_chunk sample_unidecode sample_dumper False (JStr ''a'')
                  empty_world) \<noteq> Some (Inl (FBUnknownConvers (JStr ''a'')))"
    using present inst [where d = sample_dumper and cid = "''a''" and x = "JStr ''a''"]
    by simp
  have d: "snd (dump 3 one_chunk sample_unidecode (sample_dumper\<lparr>convers_ids := Some [''a'']\<rparr>)
                  False empty_world) \<noteq> Some (Inl (FBUnknownConvers (JStr ''a'')))"
    using inst [where d = "sample_dumper\<lparr>convers_ids := Some [''a'']\<rparr>" and ids = "[''a'']"
        and x = "JStr ''a''"]
    by (simp add: sample_dumper_def)
  show ?thesis
    using a b c d one by simp
qed

section \<open>Runs of the history crawl\<close>

lemma chunk_of_request:
  assumes "chunk_of a = Some (acts, fl)"
    and "srv (tr @ [\<lparr>url = u, req_headers = h, req_data = dat\<rparr>]) = a"
  shows "make_request srv h u dat tr = (tr @ [\<lparr>url = u, req_headers = h, req_data = dat\<rparr>], Inr a)"
  using assms
  by (auto simp: chunk_of_def make_request_def Let_def bind_def
      split: json.splits option.splits)

lemma chunk_of_ended: "chunk_of a = Some (acts, fl) \<Longrightarrow> history_ended a = Inr fl"
  by (auto simp: chunk_of_def history_ended_def bind_def split: json.splits option.splits)

lemma chunk_of_take:
  "chunk_of a = Some (acts, fl) \<Longrightarrow> first_timestamp acts = Some ts
   \<Longrightarrow> take_chunk a ms = Inr (acts @ ms, ts)"
  by (auto simp: chunk_of_def first_timestamp_def take_chunk_def bind_def
      split: json.splits option.splits list.splits)

lemma build_data_str: "\<exists>dat. build_data d (JStr cid) t off tm = Inr dat"
  by (cases t) (simp_all add: build_data_def DICT_FB_TYPES_def)

lemma history_loop_step:
  assumes "c_type cur = Some t"
    and "history_ended jd = Inr False"
    and "build_data d (JStr cid) t off tm = Inr dat"
    and "srv (requests w @ [\<lparr>url = url_convers, req_headers = headers d, req_data = dat\<rparr>]) = a"
    and "chunk_of a = Some (acts, fl)"
    and "first_timestamp acts = Some ts"
    and "time_sleep (timer d) = Inr ()"
  shows "\<exists>w'. history_loop (Suc fuel) srv d f (JStr cid) cur off tm ms jd w
           = history_loop fuel srv d f (JStr cid) cur (off + chunk_size d) ts (acts @ ms) a w'
         \<and> requests w' = requests w @ [\<lparr>url = url_convers, req_headers = headers d, req_data = dat\<rparr>]"
proof -
  let ?req = "\<lparr>url = url_convers, req_headers = headers d, req_data = dat\<rparr>"
  have mr: "make_request srv (headers d) url_convers dat (requests w) = (requests w @ [?req], Inr a)"
    using assms(4,5) by (intro chunk_of_request) auto
  define w1 where "w1 = (if f
                          then w\<lparr>stdout := stdout w @
                                 [''[+]     - Retrieving messages '' @ py_str_int off @ ''-''
                                    @ py_str_int (chunk_size d + off)]\<rparr>
                          else w)"
  have r1: "requests w1 = requests w"
    by (simp add: w1_def)
  have "history_loop (Suc fuel) srv d f (JStr cid) cur off tm ms jd w
          = history_loop fuel srv d f (JStr cid) cur (off + chunk_size d) ts (acts @ ms) a
              (w1\<lparr>requests := requests w @ [?req]\<rparr>)"
    using assms(1,2,3,7) mr chunk_of_take [OF assms(5,6)]
    by (simp add: bind_def w1_def [symmetric] r1 Let_def)
  then show ?thesis
    by (intro exI [where x = "w1\<lparr>requests := requests w @ [?req]\<rparr>"]) simp
qed


lemma make_request_trace:
  "fst (make_request srv h u dat tr) = tr @ [\<lparr>url = u, req_headers = h, req_data = dat\<rparr>]"
  by (simp add: make_request_def Let_def)

lemma replay_next:
  "length tr = base + j \<Longrightarrow> replay answers base (tr @ [r]) = answers j"
  by (simp add: replay_def)

lemma history_loop_complete:
  assumes t: "c_type cur = Some t" and sl: "time_sleep (timer d) = Inr ()"
  shows "history_ended jd = Inr (chunks = []) \<Longrightarrow>
     length (requests w) = base + j \<Longrightarrow>
     \<forall>i < length chunks. chunk_of (answers (j + i)) = Some (chunks ! i, Suc i = length chunks)
                          \<and> first_timestamp (chunks ! i) \<noteq> None \<Longrightarrow>
     length chunks < fuel \<Longrightarrow>
     \<exists>w' new. history_loop fuel (replay answers base) d f (JStr cid) cur off tm ms jd w
                 = (w', Some (Inr (concat (rev chunks) @ ms)))
       \<and> requests w' = requests w @ new \<and> length new = length chunks
       \<and> (\<forall>i < length chunks. \<forall>s.
             (case i of 0 \<Rightarrow> Some tm | Suc k \<Rightarrow> first_timestamp (chunks ! k)) = Some s \<longrightarrow>
             build_data d (JStr cid) t (off + int i * chunk_size d) s = Inr (req_data (new ! i)))"
proof (induction chunks arbitrary: j w off tm ms jd fuel)
  case Nil
  then obtain fuel' where "fuel = Suc fuel'"
    by (cases fuel) auto
  then show ?case
    using Nil by simp
next
  case (Cons ch chs)
  obtain fuel' where fuel: "fuel = Suc fuel'" and fuel': "length chs < fuel'"
    using Cons.prems(4) by (cases fuel) auto
  obtain dat where dat: "build_data d (JStr cid) t off tm = Inr dat"
    using build_data_str by blast
  let ?req = "\<lparr>url = url_convers, req_headers = headers d, req_data = dat\<rparr>"
  have ch: "chunk_of (answers j) = Some (ch, chs = [])"
    using Cons.prems(3) [rule_format, of 0] by auto
  obtain ts where ts: "first_timestamp ch = Some ts"
    using Cons.prems(3) [rule_format, of 0] by auto
  have ended: "history_ended jd = Inr False"
    using Cons.prems(1) by simp
  have srv: "replay answers base (requests w @ [?req]) = answers j"
    using Cons.prems(2) by (rule replay_next)
  obtain w1 where
    step: "history_loop (Suc fuel') (replay answers base) d f (JStr cid) cur off tm ms jd w
             = history_loop fuel' (replay answers base) d f (JStr cid) cur (off + chunk_size d) ts
                 (ch @ ms) (answers j) w1"
    and w1: "requests w1 = requests w @ [?req]"
    using history_loop_step [where srv = "replay answers base", OF t ended dat srv ch ts sl]
    by blast
  have rest: "\<forall>i < length chs. chunk_of (answers (Suc j + i)) = Some (chs ! i, Suc i = length chs)
                \<and> first_timestamp (chs ! i) \<noteq> None"
    using Cons.prems(3) by (auto dest: spec [where x = "Suc i" for i])
  have len: "length (requests w1) = base + Suc j"
    using w1 Cons.prems(2) by simp
  obtain w' new where
    run: "history_loop fuel' (replay answers base) d f (JStr cid) cur (off + chunk_size d) ts
            (ch @ ms) (answers j) w1 = (w', Some (Inr (concat (rev chs) @ ch @ ms)))"
    and tr: "requests w' = requests w1 @ new" and n: "length new = length chs"
    and args: "\<forall>i < length chs. \<forall>s.
             (case i of 0 \<Rightarrow> Some ts | Suc k \<Rightarrow> first_timestamp (chs ! k)) = Some s \<longrightarrow>
             build_data d (JStr cid) t (off + chunk_size d + int i * chunk_size d) s
               = Inr (req_data (new ! i))"
    using Cons.IH [OF chunk_of_ended [OF ch] len rest fuel'] by blast
  have args': "\<forall>i < length (ch # chs). \<forall>s.
             (case i of 0 \<Rightarrow> Some tm | Suc k \<Rightarrow> first_timestamp ((ch # chs) ! k)) = Some s \<longrightarrow>
             build_data d (JStr cid) t (off + int i * chunk_size d) s
               = Inr (req_data ((?req # new) ! i))"
  proof (intro allI impI)
    fix i s
    assume i: "i < length (ch # chs)"
      and s: "(case i of 0 \<Rightarrow> Some tm | Suc k \<Rightarrow> first_timestamp ((ch # chs) ! k)) = Some s"
    show "build_data d (JStr cid) t (off + int i * chunk_size d) s
            = Inr (req_data ((?req # new) ! i))"
    proof (cases i)
      case 0
      then show ?thesis using s dat by simp
    next
      case (Suc k)
      have k: "k < length chs" using i Suc by simp
      have "(case k of 0 \<Rightarrow> Some ts | Suc k' \<Rightarrow> first_timestamp (chs ! k')) = Some s"
        using s Suc ts by (cases k) simp_all
      then have "build_data d (JStr cid) t (off + chunk_size d + int k * chunk_size d) s
                   = Inr (req_data (new ! k))"
        using args k by blast
      then show ?thesis
        using Suc by (simp add: algebra_simps)
    qed
  qed
  show ?case
    using step run tr w1 n args' unfolding fuel
    by (intro exI [where x = w'] exI [where x = "?req # new"]) simp
qed

lemma history_loop_prefix:
  assumes t: "c_type cur = Some t" and sl: "time_sleep (timer d) = Inr ()"
  shows "history_ended jd = Inr False \<Longrightarrow>
     length (requests w) = base + j \<Longrightarrow>
     \<forall>i < n. \<exists>acts. chunk_of (answers (j + i)) = Some (acts, False)
                     \<and> first_timestamp acts \<noteq> None \<Longrightarrow>
     \<exists>w' off' tm' ms' jd'.
        history_loop (n + m) (replay answers base) d f (JStr cid) cur off tm ms jd w
          = history_loop m (replay answers base) d f (JStr cid) cur off' tm' ms' jd' w'
        \<and> history_ended jd' = Inr False
        \<and> length (requests w') = base + j + n"
proof (induction n arbitrary: j w off tm ms jd)
  case 0
  show ?case
  proof (intro exI conjI)
    show "history_loop (0 + m) (replay answers base) d f (JStr cid) cur off tm ms jd w
            = history_loop m (replay answers base) d f (JStr cid) cur off tm ms jd w"
      by simp
    show "history_ended jd = Inr False"
      by (rule 0(1))
    show "length (requests w) = base + j + 0"
      using 0(2) by simp
  qed
next
  case (Suc n)
  obtain dat where dat: "build_data d (JStr cid) t off tm = Inr dat"
    using build_data_str by blast
  let ?req = "\<lparr>url = url_convers, req_headers = headers d, req_data = dat\<rparr>"
  obtain acts ts where ch: "chunk_of (answers j) = Some (acts, False)"
    and ts: "first_timestamp acts = Some ts"
    using Suc.prems(3) [rule_format, of 0] by auto
  have srv: "replay answers base (requests w @ [?req]) = answers j"
    using Suc.prems(2) by (rule replay_next)
  obtain w1 where
    step: "history_loop (Suc (n + m)) (replay answers base) d f (JStr cid) cur off tm ms jd w
             = history_loop (n + m) (replay answers base) d f (JStr cid) cur (off + chunk_size d)
                 ts (acts @ ms) (answers j) w1"
    and w1: "requests w1 = requests w @ [?req]"
    using history_loop_step [where srv = "replay answers base", OF t Suc.prems(1) dat srv ch ts sl]
    by blast
  have rest: "\<forall>i < n. \<exists>acts. chunk_of (answers (Suc j + i)) = Some (acts, False)
                \<and> first_timestamp acts \<noteq> None"
    using Suc.prems(3) by (auto dest: spec [where x = "Suc i" for i])
  have len: "length (requests w1) = base + Suc j"
    using w1 Suc.prems(2) by simp
  show ?case
    using Suc.IH [OF chunk_of_ended [OF ch] len rest, of "off + chunk_size d" ts "acts @ ms"] step
    by auto
qed

lemma history_loop_one_request:
  assumes "c_type cur = Some t" and "history_ended jd = Inr False"
  shows "length (requests (fst (history_loop (Suc 0) srv d f (JStr cid) cur off tm ms jd w)))
           = Suc (length (requests w))"
proof -
  obtain dat where dat: "build_data d (JStr cid) t off tm = Inr dat"
    using build_data_str by blast
  show ?thesis
    using assms dat make_request_trace [of srv "headers d" url_convers dat "requests w"]
    by (cases f; cases "make_request srv (headers d) url_convers dat (requests w)")
       (auto simp: bind_def Let_def split: sum.splits prod.splits)
qed

lemma history_loop_empty_page:
  assumes "c_type cur = Some t" and "history_ended jd = Inr False"
    and "length (requests w) = base + j"
    and "chunk_of (answers j) = Some ([], fl)"
  shows "\<exists>w'. history_loop (Suc fuel) (replay answers base) d f (JStr cid) cur off tm ms jd w
                 = (w', Some (Inl IndexError))
              \<and> length (requests w') = Suc (length (requests w))"
proof -
  obtain dat where dat: "build_data d (JStr cid) t off tm = Inr dat"
    using build_data_str by blast
  let ?req = "\<lparr>url = url_convers, req_headers = headers d, req_data = dat\<rparr>"
  have srv: "replay answers base (requests w @ [?req]) = answers j"
    using assms(3) by (rule replay_next)
  have mr: "make_request (replay answers base) (headers d) url_convers dat (requests w)
              = (requests w @ [?req], Inr (answers j))"
    using assms(4) srv by (intro chunk_of_request) auto
  have tk: "take_chunk (answers j) ms = Inl IndexError"
    using assms(4)
    by (auto simp: chunk_of_def take_chunk_def bind_def split: json.splits option.splits)
  show ?thesis
    using assms(1,2) dat mr tk
    by (cases f) (simp_all add: bind_def Let_def)
qed

lemma history_loop_sleep_raises:
  assumes "c_type cur = Some t" and "history_ended jd = Inr False"
    and "length (requests w) = base + j"
    and "chunk_of (answers j) = Some (acts, fl)"
    and "first_timestamp acts = Some ts"
    and "time_sleep (timer d) = Inl e"
  shows "\<exists>w'. history_loop (Suc fuel) (replay answers base) d f (JStr cid) cur off tm ms jd w
                 = (w', Some (Inl e))
              \<and> length (requests w') = Suc (length (requests w))"
proof -
  obtain dat where dat: "build_data d (JStr cid) t off tm = Inr dat"
    using build_data_str by blast
  let ?req = "\<lparr>url = url_convers, req_headers = headers d, req_data = dat\<rparr>"
  have srv: "replay answers base (requests w @ [?req]) = answers j"
    using assms(3) by (rule replay_next)
  have mr: "make_request (replay answers base) (headers d) url_convers dat (requests w)
              = (requests w @ [?req], Inr (answers j))"
    using assms(4) srv by (intro chunk_of_request) auto
  have tk: "take_chunk (answers j) ms = Inr (acts @ ms, ts)"
    by (rule chunk_of_take [OF assms(4,5)])
  show ?thesis
    using assms(1,2,6) dat mr tk
    by (cases f) (simp_all add: bind_def Let_def)
qed

lemma sorted_wrt_concat_rev:
  assumes "\<forall>i < length chunks. sorted_wrt P (chunks ! i)"
    and "\<forall>i j. i < j \<and> j < length chunks \<longrightarrow> (\<forall>x \<in> set (chunks ! j). \<forall>y \<in> set (chunks ! i). P x y)"
  shows "sorted_wrt P (concat (rev chunks))"
  using assms
proof (induction chunks)
  case Nil
  then show ?case by simp
next
  case (Cons ch chs)
  have a: "\<forall>i < length chs. sorted_wrt P (chs ! i)"
    using Cons.prems(1) by (auto dest: spec [where x = "Suc i" for i])
  have b: "\<forall>i j. i < j \<and> j < length chs \<longrightarrow> (\<forall>x \<in> set (chs ! j). \<forall>y \<in> set (chs ! i). P x y)"
  proof (intro allI impI)
    fix i j assume "i < j \<and> j < length chs"
    then show "\<forall>x \<in> set (chs ! j). \<forall>y \<in> set (chs ! i). P x y"
      using Cons.prems(2) [rule_format, of "Suc i" "Suc j"] by simp
  qed
  have c: "sorted_wrt P ch"
    using Cons.prems(1) [rule_format, of 0] by simp
  have d: "\<forall>x \<in> set (concat (rev chs)). \<forall>y \<in> set ch. P x y"
  proof (intro ballI)
    fix x y assume "x \<in> set (concat (rev chs))" and y: "y \<in> set ch"
    then obtain c where "c \<in> set chs" and xc: "x \<in> set c"
      by auto
    then obtain k where k: "k < length chs" and x: "x \<in> set (chs ! k)"
      by (metis in_set_conv_nth)
    show "P x y"
      using Cons.prems(2) [rule_format, of 0 "Suc k"] k x y by simp
  qed
  show ?case
    using Cons.IH [OF a b] c d by (simp add: sorted_wrt_append)
qed

lemma history_loop_ended:
  "history_ended jd = Inr True \<Longrightarrow>
   history_loop (Suc fuel) srv d f c cur off tm ms jd w = (w, Some (Inr ms))"
  by simp

section \<open>Order of the assembled messages\<close>

text \<open>
  C1, as the code has it. The crawl for the conversation \<open>cid\<close> starts as \<open>dump\<close> starts
  it (offset 0, timestamp \<open>"0"\<close>, no messages) against the answers \<open>answers 0\<close>,
  \<open>answers 1\<close>, ... Let answer \<open>i\<close> carry the chunk \<open>chunks ! i\<close>, whose first record has a
  timestamp, let the last chunk come with the end flag, and let the timer be one that
  \<open>time.sleep\<close> accepts. Then the crawl returns, given
  fuel for one more check than there are chunks, and the assembled list is the chunks
  in reverse order of arrival, each chunk as it arrived. When every chunk is strictly
  ascending by timestamp (oldest record first) and every later chunk is strictly older
  than every earlier one, the assembled list is strictly ascending. One request is
  issued per chunk, and the data of request \<open>i + 1\<close> are built from the timestamp of the
  first record of chunk \<open>i\<close>.
\<close>

theorem history_crawl_assembles:
  assumes "c_type conv = Some t"
    and "time_sleep (timer d) = Inr ()"
    and "chunks \<noteq> []"
    and "\<forall>i < length chunks.
           chunk_of (answers i) = Some (chunks ! i, Suc i = length chunks)
           \<and> first_timestamp (chunks ! i) \<noteq> None"
    and "length chunks < fuel"
    and "\<forall>i < length chunks. sorted_wrt older (chunks ! i)"
    and "\<forall>i j. i < j \<and> j < length chunks \<longrightarrow>
           (\<forall>x \<in> set (chunks ! j). \<forall>y \<in> set (chunks ! i). older x y)"
  shows "\<exists>w' new.
           history_loop fuel (replay answers (length (requests w))) d to_stdout (JStr cid) conv 0
             (JStr ''0'') [] (JObj [(''payload'', JObj [])]) w
             = (w', Some (Inr (concat (rev chunks))))
           \<and> sorted_wrt older (concat (rev chunks))
           \<and> requests w' = requests w @ new \<and> length new = length chunks
           \<and> (\<forall>i ts. Suc i < length chunks \<and> first_timestamp (chunks ! i) = Some ts \<longrightarrow>
                 build_data d (JStr cid) t (int (Suc i) * chunk_size d) ts
                   = Inr (req_data (new ! Suc i)))"
proof -
  have ended: "history_ended (JObj [(''payload'', JObj [])]) = Inr (chunks = [])"
    using assms(3) by (simp add: history_ended_def bind_def end_flag_def)
  have len: "length (requests w) = length (requests w) + 0"
    by simp
  have answers: "\<forall>i < length chunks.
           chunk_of (answers (0 + i)) = Some (chunks ! i, Suc i = length chunks)
           \<and> first_timestamp (chunks ! i) \<noteq> None"
    using assms(4) by simp
  obtain w' new where
    run: "history_loop fuel (replay answers (length (requests w))) d to_stdout (JStr cid) conv 0
            (JStr ''0'') [] (JObj [(''payload'', JObj [])]) w
            = (w', Some (Inr (concat (rev chunks) @ [])))"
    and tr: "requests w' = requests w @ new" and n: "length new = length chunks"
    and args: "\<forall>i < length chunks. \<forall>s.
             (case i of 0 \<Rightarrow> Some (JStr ''0'') | Suc k \<Rightarrow> first_timestamp (chunks ! k)) = Some s \<longrightarrow>
             build_data d (JStr cid) t (0 + int i * chunk_size d) s = Inr (req_data (new ! i))"
    using history_loop_complete [OF assms(1,2) ended len answers assms(5)] by blast
  have forwarded: "\<forall>i ts. Suc i < length chunks \<and> first_timestamp (chunks ! i) = Some ts \<longrightarrow>
                 build_data d (JStr cid) t (int (Suc i) * chunk_size d) ts
                   = Inr (req_data (new ! Suc i))"
  proof (intro allI impI)
    fix i ts
    assume a: "Suc i < length chunks \<and> first_timestamp (chunks ! i) = Some ts"
    then have "build_data d (JStr cid) t (0 + int (Suc i) * chunk_size d) ts
                 = Inr (req_data (new ! Suc i))"
      using args [rule_format, of "Suc i" ts] by simp
    then show "build_data d (JStr cid) t (int (Suc i) * chunk_size d) ts
                 = Inr (req_data (new ! Suc i))"
      by simp
  qed
  have sorted: "sorted_wrt older (concat (rev chunks))"
    using assms(6,7) by (rule sorted_wrt_concat_rev)
  show ?thesis
    using run tr n forwarded sorted by auto
qed

text \<open>
  Three chunks of two records, timestamps 5 6, then 3 4, then 1 2: the list is 1 to 6 in
  order, and the second request carries the timestamp 5 of the first record of the
  first chunk.
\<close>

theorem history_crawl_assembles_witness:
  "snd (history_loop 4 (replay three_chunks 0) sample_dumper False (JStr ''a'') sample_convers 0
          (JStr ''0'') [] (JObj [(''payload'', JObj [])]) empty_world)
     = Some (Inr [msg 1, msg 2, msg 3, msg 4, msg 5, msg 6])
   \<and> sorted_wrt older [msg 1, msg 2, msg 3, msg 4, msg 5, msg 6]
   \<and> map_of (req_data (requests (fst
          (history_loop 4 (replay three_chunks 0) sample_dumper False (JStr ''a'') sample_convers 0
             (JStr ''0'') [] (JObj [(''payload'', JObj [])]) empty_world)) ! 1))
         ''messages[thread_fbids][a][timestamp]''
       = Some (JNum 5)"
proof -
  let ?chunks = "[[msg 5, msg 6], [msg 3, msg 4], [msg 1, msg 2]]"
  have t: "c_type sample_convers = Some GROUP"
    by (simp add: sample_convers_def)
  have sl: "time_sleep (timer sample_dumper) = Inr ()"
    by (simp add: time_sleep_def sleep_max_def sample_dumper_def)
  have ne: "?chunks \<noteq> []"
    by simp
  have answers: "\<forall>i < length ?chunks.
           chunk_of (three_chunks i) = Some (?chunks ! i, Suc i = length ?chunks)
           \<and> first_timestamp (?chunks ! i) \<noteq> None"
    by (auto simp: less_Suc_eq three_chunks_def chunk_answer_def chunk_of_def first_timestamp_def
        msg_def end_flag_def)
  have fuel: "length ?chunks < 4"
    by simp
  have asc: "\<forall>i < length ?chunks. sorted_wrt older (?chunks ! i)"
    by (auto simp: less_Suc_eq older_def int_timestamp_def msg_def)
  have across: "\<forall>i j. i < j \<and> j < length ?chunks \<longrightarrow>
           (\<forall>x \<in> set (?chunks ! j). \<forall>y \<in> set (?chunks ! i). older x y)"
    by (auto simp: less_Suc_eq older_def int_timestamp_def msg_def)
  obtain w' new where
    run: "history_loop 4 (replay three_chunks (length (requests empty_world))) sample_dumper False
            (JStr ''a'') sample_convers 0 (JStr ''0'') [] (JObj [(''payload'', JObj [])])
            empty_world = (w', Some (Inr (concat (rev ?chunks))))"
    and sorted: "sorted_wrt older (concat (rev ?chunks))"
    and tr: "requests w' = requests empty_world @ new"
    and fw: "\<forall>i ts. Suc i < length ?chunks \<and> first_timestamp (?chunks ! i) = Some ts \<longrightarrow>
                 build_data sample_dumper (JStr ''a'') GROUP (int (Suc i) * chunk_size sample_dumper) ts
                   = Inr (req_data (new ! Suc i))"
    using history_crawl_assembles [OF t sl ne answers fuel asc across, where w = empty_world
        and to_stdout = False and cid = "''a''"]
    by blast
  have z: "length (requests empty_world) = 0" and e: "requests empty_world = []"
    by (simp_all add: empty_world_def)
  have "first_timestamp (?chunks ! 0) = Some (JNum 5)"
    by (simp add: first_timestamp_def msg_def)
  then have "build_data sample_dumper (JStr ''a'') GROUP (int (Suc 0) * chunk_size sample_dumper)
               (JNum 5) = Inr (req_data (new ! Suc 0))"
    using fw [rule_format, of 0 "JNum 5"] by simp
  then have "Inr (req_data (new ! Suc 0))
               = build_data sample_dumper (JStr ''a'') GROUP
                   (int (Suc 0) * chunk_size sample_dumper) (JNum 5)"
    by (rule sym)
  then have "map_of (req_data (new ! 1)) ''messages[thread_fbids][a][timestamp]'' = Some (JNum 5)"
    by (simp add: build_data_def DICT_FB_TYPES_def sample_dumper_def)
  then show ?thesis
    using run sorted tr unfolding z e by simp
qed

text \<open>
  C1 as stated has every chunk newest first inside itself. Three such chunks, 6 5, then
  4 3, then 2 1, are assembled to 2 1 4 3 6 5, which is not ascending: a chunk is put in
  front of the accumulator as it is, and is never reversed.
\<close>

theorem newest_first_chunks_counterexample:
  "snd (history_loop 4 (replay newest_first_chunks 0) sample_dumper False (JStr ''a'')
          sample_convers 0 (JStr ''0'') [] (JObj [(''payload'', JObj [])]) empty_world)
     = Some (Inr [msg 2, msg 1, msg 4, msg 3, msg 6, msg 5])
   \<and> \<not> sorted_wrt older [msg 2, msg 1, msg 4, msg 3, msg 6, msg 5]"
proof
  show "snd (history_loop 4 (replay newest_first_chunks 0) sample_dumper False (JStr ''a'')
          sample_convers 0 (JStr ''0'') [] (JObj [(''payload'', JObj [])]) empty_world)
     = Some (Inr [msg 2, msg 1, msg 4, msg 3, msg 6, msg 5])"
    by code_simp
  show "\<not> sorted_wrt older [msg 2, msg 1, msg 4, msg 3, msg 6, msg 5]"
    by (simp add: older_def int_timestamp_def msg_def)
qed

section \<open>The end of the history crawl\<close>

text \<open>
  C3, as the code has it. Let the first \<open>n\<close> answers be chunks without the end flag whose
  first record has a timestamp, and let the timer be one that \<open>time.sleep\<close> accepts.
  Then the crawl is still running after them with \<open>n\<close>
  requests issued (fuel \<open>n\<close> runs out), and with one more unit of fuel it issues request
  \<open>n + 1\<close>, whatever the answers after these are. If answer \<open>n\<close> (the answer to request
  \<open>n + 1\<close>) is such a chunk with the end flag, the crawl returns after exactly \<open>n + 1\<close>
  requests. If answer \<open>n\<close> is an empty page, with or without the end flag, the crawl
  stops after request \<open>n + 1\<close> with IndexError: line 335 reads the first record of the
  page.
\<close>

theorem history_crawl_ends_at_flag:
  assumes "c_type conv = Some t"
    and "time_sleep (timer d) = Inr ()"
    and "\<forall>i < n. \<exists>acts. chunk_of (answers i) = Some (acts, False) \<and> first_timestamp acts \<noteq> None"
  shows "(\<exists>w'. history_loop n (replay answers (length (requests w))) d to_stdout (JStr cid) conv 0
                 (JStr ''0'') [] (JObj [(''payload'', JObj [])]) w = (w', None)
               \<and> length (requests w') = length (requests w) + n)
         \<and> length (requests (fst
               (history_loop (Suc n) (replay answers (length (requests w))) d to_stdout (JStr cid)
                  conv 0 (JStr ''0'') [] (JObj [(''payload'', JObj [])]) w)))
             = length (requests w) + Suc n
         \<and> ((\<exists>acts. chunk_of (answers n) = Some (acts, True) \<and> first_timestamp acts \<noteq> None)
              \<and> Suc n < fuel \<longrightarrow>
            (\<exists>w' ms. history_loop fuel (replay answers (length (requests w))) d to_stdout (JStr cid)
                  conv 0 (JStr ''0'') [] (JObj [(''payload'', JObj [])]) w = (w', Some (Inr ms))
               \<and> length (requests w') = length (requests w) + Suc n))
         \<and> ((\<exists>fl. chunk_of (answers n) = Some ([], fl)) \<and> n < fuel \<longrightarrow>
            (\<exists>w'. history_loop fuel (replay answers (length (requests w))) d to_stdout (JStr cid)
                  conv 0 (JStr ''0'') [] (JObj [(''payload'', JObj [])]) w
                  = (w', Some (Inl IndexError))
               \<and> length (requests w') = length (requests w) + Suc n))"
proof -
  let ?srv = "replay answers (length (requests w))"
  let ?init = "JObj [(''payload'', JObj [])]"
  have ended: "history_ended ?init = Inr False"
    by (simp add: history_ended_def bind_def end_flag_def)
  have len: "length (requests w) = length (requests w) + 0"
    by simp
  have answers: "\<forall>i < n. \<exists>acts. chunk_of (answers (0 + i)) = Some (acts, False)
                   \<and> first_timestamp acts \<noteq> None"
    using assms(3) by simp
  have prefix: "\<exists>w' off' tm' ms' jd'.
        history_loop (n + m) ?srv d to_stdout (JStr cid) conv 0 (JStr ''0'') [] ?init w
          = history_loop m ?srv d to_stdout (JStr cid) conv off' tm' ms' jd' w'
        \<and> history_ended jd' = Inr False
        \<and> length (requests w') = length (requests w) + 0 + n" for m
    using history_loop_prefix [OF assms(1,2) ended len answers] by blast
  have a: "\<exists>w'. history_loop n ?srv d to_stdout (JStr cid) conv 0 (JStr ''0'') [] ?init w = (w', None)
               \<and> length (requests w') = length (requests w) + n"
    using prefix [of 0] by (auto simp del: history_loop.simps(2))
  have b: "length (requests (fst
               (history_loop (Suc n) ?srv d to_stdout (JStr cid) conv 0 (JStr ''0'') [] ?init w)))
             = length (requests w) + Suc n"
  proof -
    obtain w' off' tm' ms' jd' where
      eq: "history_loop (n + Suc 0) ?srv d to_stdout (JStr cid) conv 0 (JStr ''0'') [] ?init w
          = history_loop (Suc 0) ?srv d to_stdout (JStr cid) conv off' tm' ms' jd' w'"
      and e: "history_ended jd' = Inr False"
      and l: "length (requests w') = length (requests w) + 0 + n"
      using prefix [of "Suc 0"] by blast
    show ?thesis
      using eq l history_loop_one_request [OF assms(1) e, of ?srv d to_stdout cid off' tm' ms' w']
      by (simp del: history_loop.simps)
  qed
  have c: "\<exists>w' ms. history_loop fuel ?srv d to_stdout (JStr cid) conv 0 (JStr ''0'') [] ?init w
                  = (w', Some (Inr ms))
               \<and> length (requests w') = length (requests w) + Suc n"
    if flag: "\<exists>acts. chunk_of (answers n) = Some (acts, True) \<and> first_timestamp acts \<noteq> None"
      and fuel: "Suc n < fuel"
  proof -
    define m where "m = fuel - n - 2"
    have m: "fuel = n + Suc (Suc m)"
      using fuel by (simp add: m_def)
    obtain acts ts where ch: "chunk_of (answers n) = Some (acts, True)"
      and ts: "first_timestamp acts = Some ts"
      using flag by auto
    obtain w' off' tm' ms' jd' where
      eq: "history_loop (n + Suc (Suc m)) ?srv d to_stdout (JStr cid) conv 0 (JStr ''0'') [] ?init w
          = history_loop (Suc (Suc m)) ?srv d to_stdout (JStr cid) conv off' tm' ms' jd' w'"
      and e: "history_ended jd' = Inr False"
      and l: "length (requests w') = length (requests w) + 0 + n"
      using prefix [of "Suc (Suc m)"] by blast
    obtain dat where dat: "build_data d (JStr cid) t off' tm' = Inr dat"
      using build_data_str by blast
    have srv: "?srv (requests w' @ [\<lparr>url = url_convers, req_headers = headers d, req_data = dat\<rparr>])
                 = answers n"
      using l by (intro replay_next) simp
    obtain w2 where
      step: "history_loop (Suc (Suc m)) ?srv d to_stdout (JStr cid) conv off' tm' ms' jd' w'
               = history_loop (Suc m) ?srv d to_stdout (JStr cid) conv (off' + chunk_size d) ts
                   (acts @ ms') (answers n) w2"
      and w2: "requests w2
                 = requests w' @ [\<lparr>url = url_convers, req_headers = headers d, req_data = dat\<rparr>]"
      using history_loop_step [where srv = ?srv, OF assms(1) e dat srv ch ts assms(2)] by blast
    have "history_loop fuel ?srv d to_stdout (JStr cid) conv 0 (JStr ''0'') [] ?init w
            = (w2, Some (Inr (acts @ ms')))"
      unfolding m eq step by (rule history_loop_ended [OF chunk_of_ended [OF ch]])
    then show ?thesis
      using w2 l by (intro exI [where x = w2] exI [where x = "acts @ ms'"]) simp
  qed
  have e: "\<exists>w'. history_loop fuel ?srv d to_stdout (JStr cid) conv 0 (JStr ''0'') [] ?init w
                  = (w', Some (Inl IndexError))
               \<and> length (requests w') = length (requests w) + Suc n"
    if empty: "\<exists>fl. chunk_of (answers n) = Some ([], fl)" and fuel: "n < fuel"
  proof -
    define m where "m = fuel - n - 1"
    have m: "fuel = n + Suc m"
      using fuel by (simp add: m_def)
    obtain fl where ch: "chunk_of (answers n) = Some ([], fl)"
      using empty by auto
    obtain w' off' tm' ms' jd' where
      eq: "history_loop (n + Suc m) ?srv d to_stdout (JStr cid) conv 0 (JStr ''0'') [] ?init w
          = history_loop (Suc m) ?srv d to_stdout (JStr cid) conv off' tm' ms' jd' w'"
      and e: "history_ended jd' = Inr False"
      and l: "length (requests w') = length (requests w) + 0 + n"
      using prefix [of "Suc m"] by blast
    have l': "length (requests w') = length (requests w) + n"
      using l by simp
    show ?thesis
      using l history_loop_empty_page [where answers = answers and base = "length (requests w)"
          and j = n and fuel = m and d = d and f = to_stdout and cid = cid and off = off'
          and tm = tm' and ms = ms', OF assms(1) e l' ch]
      unfolding m eq by (auto simp del: history_loop.simps)
  qed
  show ?thesis
  proof (intro conjI impI)
    show "\<exists>w'. history_loop n ?srv d to_stdout (JStr cid) conv 0 (JStr ''0'') [] ?init w = (w', None)
               \<and> length (requests w') = length (requests w) + n"
      by (rule a)
    show "length (requests (fst
               (history_loop (Suc n) ?srv d to_stdout (JStr cid) conv 0 (JStr ''0'') [] ?init w)))
             = length (requests w) + Suc n"
      by (rule b)
  next
    assume "(\<exists>acts. chunk_of (answers n) = Some (acts, True) \<and> first_timestamp acts \<noteq> None)
              \<and> Suc n < fuel"
    then show "\<exists>w' ms. history_loop fuel ?srv d to_stdout (JStr cid) conv 0 (JStr ''0'') [] ?init w
                  = (w', Some (Inr ms))
               \<and> length (requests w') = length (requests w) + Suc n"
      using c by (elim conjE)
  next
    assume "(\<exists>fl. chunk_of (answers n) = Some ([], fl)) \<and> n < fuel"
    then show "\<exists>w'. history_loop fuel ?srv d to_stdout (JStr cid) conv 0 (JStr ''0'') [] ?init w
                  = (w', Some (Inl IndexError))
               \<and> length (requests w') = length (requests w) + Suc n"
      using e by (elim conjE)
  qed
qed

text \<open>
  A source that never sends the end flag: after three answers the crawl is running with
  three requests issued, and it issues a fourth. The three chunks with the flag on the
  third: the crawl returns after three requests. Empty pages: it stops with IndexError
  after one request.
\<close>

theorem history_crawl_ends_at_flag_witness:
  "snd (history_loop 3 (replay endless 0) sample_dumper False (JStr ''a'') sample_convers 0
          (JStr ''0'') [] (JObj [(''payload'', JObj [])]) empty_world) = None
   \<and> length (requests (fst
         (history_loop 3 (replay endless 0) sample_dumper False (JStr ''a'') sample_convers 0
            (JStr ''0'') [] (JObj [(''payload'', JObj [])]) empty_world))) = 3
   \<and> length (requests (fst
         (history_loop 4 (replay endless 0) sample_dumper False (JStr ''a'') sample_convers 0
            (JStr ''0'') [] (JObj [(''payload'', JObj [])]) empty_world))) = 4
   \<and> (\<exists>ms. snd (history_loop 4 (replay three_chunks 0) sample_dumper False (JStr ''a'')
                  sample_convers 0 (JStr ''0'') [] (JObj [(''payload'', JObj [])]) empty_world)
              = Some (Inr ms))
   \<and> length (requests (fst
         (history_loop 4 (replay three_chunks 0) sample_dumper False (JStr ''a'') sample_convers 0
            (JStr ''0'') [] (JObj [(''payload'', JObj [])]) empty_world))) = 3
   \<and> snd (history_loop 5 (replay empty_pages 0) sample_dumper False (JStr ''a'') sample_convers 0
            (JStr ''0'') [] (JObj [(''payload'', JObj [])]) empty_world)
       = Some (Inl IndexError)
   \<and> length (requests (fst
         (history_loop 5 (replay empty_pages 0) sample_dumper False (JStr ''a'') sample_convers 0
            (JStr ''0'') [] (JObj [(''payload'', JObj [])]) empty_world))) = 1"
proof -
  have t: "c_type sample_convers = Some GROUP"
    by (simp add: sample_convers_def)
  have z: "length (requests empty_world) = 0"
    by (simp add: empty_world_def)
  have sl: "time_sleep (timer sample_dumper) = Inr ()"
    by (simp add: time_sleep_def sleep_max_def sample_dumper_def)
  have endless: "\<forall>i < 3. \<exists>acts. chunk_of (endless i) = Some (acts, False)
                   \<and> first_timestamp acts \<noteq> None"
    by (simp add: endless_def chunk_answer_def chunk_of_def first_timestamp_def msg_def
        end_flag_def)
  have three: "\<forall>i < 2. \<exists>acts. chunk_of (three_chunks i) = Some (acts, False)
                 \<and> first_timestamp acts \<noteq> None"
    by (auto simp: less_Suc_eq numeral_2_eq_2 three_chunks_def chunk_answer_def chunk_of_def
        first_timestamp_def msg_def end_flag_def)
  have last: "\<exists>acts. chunk_of (three_chunks 2) = Some (acts, True) \<and> first_timestamp acts \<noteq> None"
    by (simp add: three_chunks_def chunk_answer_def chunk_of_def first_timestamp_def msg_def
        end_flag_def)
  have none: "\<forall>i < (0::nat). \<exists>acts. chunk_of (empty_pages i) = Some (acts, False)
                \<and> first_timestamp acts \<noteq> None"
    by simp
  have empty: "\<exists>fl. chunk_of (empty_pages 0) = Some ([], fl)"
    by (simp add: empty_pages_def chunk_answer_def chunk_of_def)
  note a = history_crawl_ends_at_flag [OF t sl endless, where w = empty_world
      and to_stdout = False and cid = "''a''" and fuel = 0, unfolded z]
  note b = history_crawl_ends_at_flag [OF t sl three, where w = empty_world
      and to_stdout = False and cid = "''a''" and fuel = 4, unfolded z]
  note c = history_crawl_ends_at_flag [OF t sl none, where w = empty_world
      and to_stdout = False and cid = "''a''" and fuel = 5, unfolded z]
  have a1: "snd (history_loop 3 (replay endless 0) sample_dumper False (JStr ''a'') sample_convers 0
          (JStr ''0'') [] (JObj [(''payload'', JObj [])]) empty_world) = None
   \<and> length (requests (fst
         (history_loop 3 (replay endless 0) sample_dumper False (JStr ''a'') sample_convers 0
            (JStr ''0'') [] (JObj [(''payload'', JObj [])]) empty_world))) = 3"
    using a [THEN conjunct1] by (auto simp del: history_loop.simps)
  have a2: "length (requests (fst
         (history_loop 4 (replay endless 0) sample_dumper False (JStr ''a'') sample_convers 0
            (JStr ''0'') [] (JObj [(''payload'', JObj [])]) empty_world))) = 4"
    using a [THEN conjunct2, THEN conjunct1] by (simp del: history_loop.simps)
  have b1: "(\<exists>ms. snd (history_loop 4 (replay three_chunks 0) sample_dumper False (JStr ''a'')
                  sample_convers 0 (JStr ''0'') [] (JObj [(''payload'', JObj [])]) empty_world)
              = Some (Inr ms))
   \<and> length (requests (fst
         (history_loop 4 (replay three_chunks 0) sample_dumper False (JStr ''a'') sample_convers 0
            (JStr ''0'') [] (JObj [(''payload'', JObj [])]) empty_world))) = 3"
    using b [THEN conjunct2, THEN conjunct2, THEN conjunct1] last
    by (auto simp del: history_loop.simps)
  have c1: "snd (history_loop 5 (replay empty_pages 0) sample_dumper False (JStr ''a'') sample_convers 0
            (JStr ''0'') [] (JObj [(''payload'', JObj [])]) empty_world)
       = Some (Inl IndexError)
   \<and> length (requests (fst
         (history_loop 5 (replay empty_pages 0) sample_dumper False (JStr ''a'') sample_convers 0
            (JStr ''0'') [] (JObj [(''payload'', JObj [])]) empty_world))) = 1"
    using c [THEN conjunct2, THEN conjunct2, THEN conjunct2] empty
    by (auto simp del: history_loop.simps)
  show ?thesis
    using a1 a2 b1 c1 by (simp del: history_loop.simps)
qed

text \<open>
  C3 as stated has the crawl go on past an empty page that holds no end flag. Against a
  source of such pages, \<open>dump\<close> for the conversation \<open>a\<close> stops with IndexError after its
  first request, with fuel left.
\<close>

theorem empty_page_counterexample:
  "snd (dump 5 (replay empty_pages 0) sample_unidecode (sample_dumper\<lparr>convers_ids := Some [''a'']\<rparr>)
          False empty_world) = Some (Inl IndexError)
   \<and> length (requests (fst
         (dump 5 (replay empty_pages 0) sample_unidecode
            (sample_dumper\<lparr>convers_ids := Some [''a'']\<rparr>) False empty_world))) = 1"
proof
  show "snd (dump 5 (replay empty_pages 0) sample_unidecode
               (sample_dumper\<lparr>convers_ids := Some [''a'']\<rparr>) False empty_world)
          = Some (Inl IndexError)"
    by code_simp
  show "length (requests (fst
         (dump 5 (replay empty_pages 0) sample_unidecode
            (sample_dumper\<lparr>convers_ids := Some [''a'']\<rparr>) False empty_world))) = 1"
    by code_simp
qed

text \<open>
  The pause of line 338 can end the crawl too. With a timer of ten thousand million
  seconds, which the constructor takes, \<open>time.sleep\<close> raises after the first chunk: the
  crawl over the three chunks stops with \<open>OverflowError\<close> after one request.
\<close>

lemma rejected_timer_example:
  "snd (history_loop 4 (replay three_chunks 0) (sample_dumper\<lparr>timer := 10000000000\<rparr>) False
          (JStr ''a'') sample_convers 0 (JStr ''0'') [] (JObj [(''payload'', JObj [])]) empty_world)
     = Some (Inl OverflowError)
   \<and> length (requests (fst
         (history_loop 4 (replay three_chunks 0) (sample_dumper\<lparr>timer := 10000000000\<rparr>) False
            (JStr ''a'') sample_convers 0 (JStr ''0'') [] (JObj [(''payload'', JObj [])])
            empty_world))) = 1"
proof
  show "snd (history_loop 4 (replay three_chunks 0) (sample_dumper\<lparr>timer := 10000000000\<rparr>) False
          (JStr ''a'') sample_convers 0 (JStr ''0'') [] (JObj [(''payload'', JObj [])]) empty_world)
     = Some (Inl OverflowError)"
    by code_simp
  show "length (requests (fst
         (history_loop 4 (replay three_chunks 0) (sample_dumper\<lparr>timer := 10000000000\<rparr>) False
            (JStr ''a'') sample_convers 0 (JStr ''0'') [] (JObj [(''payload'', JObj [])])
            empty_world))) = 1"
    by code_simp
qed

section \<open>Pages of the directory crawl\<close>

lemma dict_find_store:
  "dict_find (dict_store d k v) k' = (if dict_key k' = dict_key k then Some v else dict_find d k')"
  by (induction d) auto

lemma dict_find_None_iff:
  "dict_find d k = None \<longleftrightarrow> dict_key k \<notin> dict_key ` fst ` set d"
  by (induction d) auto

lemma keys_dict_store:
  "map fst (dict_store d k v) = (if dict_find d k = None then map fst d @ [k] else map fst d)"
  by (induction d) auto

lemma merge_participants_ok:
  "\<forall>p \<in> set pts. participant_ok p \<Longrightarrow>
   \<exists>ps'. merge_participants ps pts = Inr ps'
        \<and> (\<forall>u. dict_find ps u \<noteq> None \<or> has_fbid pts u \<longrightarrow> dict_find ps' u \<noteq> None)"
proof (induction pts arbitrary: ps)
  case Nil
  then show ?case by (simp add: has_fbid_def)
next
  case (Cons p pts)
  obtain kv n f where p: "p = JObj kv" and n: "map_of kv ''name'' = Some n"
    and f: "map_of kv ''fbid'' = Some f" and h: "hashable f"
    using Cons.prems by (auto simp: participant_ok_def split: json.splits option.splits)
  obtain ps' where m: "merge_participants (dict_store ps f n) pts = Inr ps'"
    and k: "\<forall>u. dict_find (dict_store ps f n) u \<noteq> None \<or> has_fbid pts u \<longrightarrow> dict_find ps' u \<noteq> None"
    using Cons.IH [of "dict_store ps f n"] Cons.prems by auto
  have "merge_participants ps (p # pts) = Inr ps'"
    using p n f h m by (simp add: bind_def dict_set_def)
  moreover have "\<forall>u. dict_find ps u \<noteq> None \<or> has_fbid (p # pts) u \<longrightarrow> dict_find ps' u \<noteq> None"
    using k p f by (auto simp: has_fbid_def dict_find_store)
  ultimately show ?case by blast
qed

lemma thread_entry_ok:
  assumes "thread_ok pts c" and "\<forall>u. has_fbid pts u \<longrightarrow> dict_find ps u \<noteq> None"
  shows "\<exists>cur' s. thread_entry status ps cur c = Inr (cur', JStr s) \<and> thread_id c = Some s"
proof -
  obtain kv where c: "c = JObj kv"
    using assms(1) by (cases c) (simp_all add: thread_ok_def)
  obtain tt where tt: "map_of kv ''thread_type'' = Some tt"
    using assms(1) c by (cases "map_of kv ''thread_type''") (simp_all add: thread_ok_def)
  obtain pp ts where pp: "map_of kv ''participants'' = Some pp"
    and ts: "map_of kv ''last_message_timestamp'' = Some ts"
    using assms(1) c tt by (auto simp: thread_ok_def)
  obtain s where s: "map_of kv ''thread_fbid'' = Some (JStr s)"
    using assms(1) c tt
    by (cases "map_of kv ''thread_fbid''")
       (auto simp: thread_ok_def thread_id_def split: json.splits)
  have name: "\<exists>cur1.
      (if py_eq_int tt 2 then
         bind (py_getitem c ''name'') (\<lambda>name.
           Inr (cur\<lparr>c_type := Some GROUP, c_name := Some name\<rparr>))
       else if py_eq_int tt 1 then
         bind (py_getitem c ''other_user_fbid'') (\<lambda>other.
         bind (dict_get ps other) (\<lambda>name.
           Inr (cur\<lparr>c_type := Some USER, c_name := Some name\<rparr>)))
       else Inr cur) = Inr cur1"
  proof (cases "py_eq_int tt 2")
    case True
    then obtain n where "map_of kv ''name'' = Some n"
      using assms(1) c tt by (auto simp: thread_ok_def)
    then show ?thesis
      using True c by (simp add: bind_def)
  next
    case False
    show ?thesis
    proof (cases "py_eq_int tt 1")
      case True
      then obtain u where u: "map_of kv ''other_user_fbid'' = Some u" and h: "hashable u"
        and k: "has_fbid pts u"
        using False assms(1) c tt by (auto simp: thread_ok_def split: option.splits)
      obtain n where "dict_find ps u = Some n"
        using k assms(2) by auto
      then show ?thesis
        using True False c u h by (simp add: bind_def dict_get_def)
    next
      case False2: False
      then show ?thesis
        using False by simp
    qed
  qed
  then obtain cur1 where cur1: "(if py_eq_int tt 2 then
         bind (py_getitem c ''name'') (\<lambda>name.
           Inr (cur\<lparr>c_type := Some GROUP, c_name := Some name\<rparr>))
       else if py_eq_int tt 1 then
         bind (py_getitem c ''other_user_fbid'') (\<lambda>other.
         bind (dict_get ps other) (\<lambda>name.
           Inr (cur\<lparr>c_type := Some USER, c_name := Some name\<rparr>)))
       else Inr cur) = Inr cur1"
    by blast
  have "thread_entry status ps cur c
          = Inr (cur1\<lparr>c_status := Some status, c_participants := Some pp,
                      c_last_message_timestamp := Some ts\<rparr>, JStr s)"
    unfolding thread_entry_def using c tt pp ts s cur1
    by (simp add: bind_def)
  moreover have "thread_id c = Some s"
    using c s by (simp add: thread_id_def)
  ultimately show ?thesis
    by blast
qed

lemma merge_threads_ok:
  assumes known: "\<forall>u. has_fbid pts u \<longrightarrow> dict_find ps u \<noteq> None"
  shows "\<forall>c \<in> set ths. thread_ok pts c \<Longrightarrow>
     distinct (List.map_filter thread_id ths) \<Longrightarrow>
     \<forall>s \<in> set (List.map_filter thread_id ths). dict_find cv (JStr s) = None \<Longrightarrow>
     \<exists>cv'. merge_threads status ps cur cv ths = Inr cv'
          \<and> map fst cv' = map fst cv @ map JStr (List.map_filter thread_id ths)"
proof (induction ths arbitrary: cur cv)
  case Nil
  then show ?case by (simp add: map_filter_simps)
next
  case (Cons c ths)
  obtain cur' s where e: "thread_entry status ps cur c = Inr (cur', JStr s)"
    and s: "thread_id c = Some s"
    using thread_entry_ok [OF _ known, of c status cur] Cons.prems(1) by auto
  have ids: "List.map_filter thread_id (c # ths) = s # List.map_filter thread_id ths"
    using s by (simp add: map_filter_simps)
  let ?cv = "dict_store cv (JStr s) cur'"
  have fresh: "\<forall>s' \<in> set (List.map_filter thread_id ths). dict_find ?cv (JStr s') = None"
    using Cons.prems(2,3) unfolding ids by (auto simp: dict_find_store)
  obtain cv' where m: "merge_threads status ps cur' ?cv ths = Inr cv'"
    and keys: "map fst cv' = map fst ?cv @ map JStr (List.map_filter thread_id ths)"
    using Cons.IH [of ?cv cur'] Cons.prems(1,2) fresh unfolding ids by auto
  have "merge_threads status ps cur cv (c # ths) = Inr cv'"
    using e m by (simp add: bind_def dict_set_def)
  moreover have "map fst cv' = map fst cv @ map JStr (List.map_filter thread_id (c # ths))"
    using keys Cons.prems(3) unfolding ids by (simp add: keys_dict_store)
  ultimately show ?case by blast
qed


lemma listing_request:
  assumes "listing_of a = Some (ths, pts)"
    and "srv (tr @ [\<lparr>url = u, req_headers = h, req_data = dat\<rparr>]) = a"
  shows "make_request srv h u dat tr = (tr @ [\<lparr>url = u, req_headers = h, req_data = dat\<rparr>], Inr a)"
  using assms
  by (auto simp: listing_of_def make_request_def Let_def bind_def
      split: json.splits option.splits)

lemma merge_page_ok:
  assumes a: "listing_of a = Some (ths, pts)"
    and pts: "\<forall>p \<in> set pts. participant_ok p"
    and ths: "\<forall>c \<in> set ths. thread_ok pts c"
    and d: "distinct (List.map_filter thread_id ths)"
    and fresh: "\<forall>s \<in> set (List.map_filter thread_id ths). dict_find cv (JStr s) = None"
  shows "\<exists>cv' ps'. merge_page status csz (cv, ps) a = Inr ((cv', ps'), int (length ths) < csz)
           \<and> map fst cv' = map fst cv @ map JStr (List.map_filter thread_id ths)"
proof -
  obtain ps' where m: "merge_participants ps pts = Inr ps'"
    and known: "\<forall>u. has_fbid pts u \<longrightarrow> dict_find ps' u \<noteq> None"
    using merge_participants_ok [OF pts, of ps] by auto
  obtain cv' where t: "merge_threads status ps' empty_convers cv ths = Inr cv'"
    and keys: "map fst cv' = map fst cv @ map JStr (List.map_filter thread_id ths)"
    using merge_threads_ok [OF known ths d fresh] by blast
  have "merge_page status csz (cv, ps) a = Inr ((cv', ps'), int (length ths) < csz)"
    using a m t
    by (auto simp: listing_of_def merge_page_def bind_def split: json.splits option.splits)
  then show ?thesis
    using keys by blast
qed

lemma map_filter_thread_id_length:
  "\<forall>c \<in> set ths. thread_ok pts c \<Longrightarrow> length (List.map_filter thread_id ths) = length ths"
  by (induction ths) (auto simp: map_filter_simps thread_ok_def split: json.splits option.splits)

lemma list_data_status:
  "status = ''inbox'' \<or> status = ''archived'' \<Longrightarrow> \<exists>dat. list_data status offset csz = Inr dat"
  by (auto simp: list_data_def)

lemma page_ids_Cons:
  "page_ids (pg # pages) = List.map_filter thread_id (fst pg) @ page_ids pages"
  by (simp add: page_ids_def List.map_filter_def)

lemma convers_loop_step:
  assumes st: "status = ''inbox'' \<or> status = ''archived''"
    and len: "length tr = base + j"
    and a: "listing_of (answers j) = Some pg"
    and ok: "page_ok pg"
    and d: "distinct (List.map_filter thread_id (fst pg))"
    and fresh: "\<forall>s \<in> set (List.map_filter thread_id (fst pg)). dict_find cv (JStr s) = None"
  shows "\<exists>cv' ps' r. listing_request_at hdrs pd csz status offset r
     \<and> convers_loop (Suc fuel) (replay answers base) hdrs pd csz status offset (cv, ps) tr
         = (if int (length (fst pg)) < csz then (tr @ [r], Some (Inr (cv', ps')))
            else convers_loop fuel (replay answers base) hdrs pd csz status (offset + csz) (cv', ps')
                   (tr @ [r]))
     \<and> map fst cv' = map fst cv @ map JStr (List.map_filter thread_id (fst pg))"
proof -
  obtain dat where dat: "list_data status offset csz = Inr dat"
    using list_data_status [OF st] by blast
  let ?r = "\<lparr>url = url_convers_list, req_headers = hdrs, req_data = dict_update_all dat pd\<rparr>"
  obtain ths pts where pg: "pg = (ths, pts)"
    by (cases pg)
  have srv: "replay answers base (tr @ [?r]) = answers j"
    using len by (rule replay_next)
  have mr: "make_request (replay answers base) hdrs url_convers_list (dict_update_all dat pd) tr
              = (tr @ [?r], Inr (answers j))"
    using a srv unfolding pg by (intro listing_request) auto
  obtain cv' ps' where
    mp: "merge_page status csz (cv, ps) (answers j) = Inr ((cv', ps'), int (length ths) < csz)"
    and keys: "map fst cv' = map fst cv @ map JStr (List.map_filter thread_id ths)"
    using merge_page_ok [of "answers j" ths pts cv status csz ps] a ok d fresh
    unfolding pg page_ok_def by auto
  have "convers_loop (Suc fuel) (replay answers base) hdrs pd csz status offset (cv, ps) tr
         = (if int (length (fst pg)) < csz then (tr @ [?r], Some (Inr (cv', ps')))
            else convers_loop fuel (replay answers base) hdrs pd csz status (offset + csz) (cv', ps')
                   (tr @ [?r]))"
    using dat mr mp unfolding pg by simp
  moreover have "listing_request_at hdrs pd csz status offset ?r"
    using dat by (simp add: listing_request_at_def)
  ultimately show ?thesis
    using keys unfolding pg
    by (intro exI [where x = cv'] exI [where x = ps'] exI [where x = ?r])
       (simp del: convers_loop.simps)
qed

lemma fresh_after:
  assumes "map fst cv' = map fst cv @ map JStr ids"
    and "dict_find cv (JStr s) = None" and "s \<notin> set ids"
  shows "dict_find cv' (JStr s) = None"
proof -
  have "fst ` set cv' = fst ` set cv \<union> JStr ` set ids"
    using assms(1) by (metis image_set set_append set_map)
  moreover have "JStr s \<notin> dict_key ` JStr ` set ids"
    using assms(3) by auto
  ultimately show ?thesis
    using assms(2) by (auto simp: dict_find_None_iff)
qed

lemma convers_loop_prefix:
  assumes st: "status = ''inbox'' \<or> status = ''archived''"
  shows "length tr = base + j \<Longrightarrow>
     \<forall>i < length pages. listing_of (answers (j + i)) = Some (pages ! i) \<and> page_ok (pages ! i)
                         \<and> int (length (fst (pages ! i))) = csz \<Longrightarrow>
     distinct (page_ids pages) \<Longrightarrow>
     \<forall>s \<in> set (page_ids pages). dict_find cv (JStr s) = None \<Longrightarrow>
     \<exists>cv' ps' new.
        convers_loop (length pages + m) (replay answers base) hdrs pd csz status offset (cv, ps) tr
          = convers_loop m (replay answers base) hdrs pd csz status
              (offset + int (length pages) * csz) (cv', ps') (tr @ new)
        \<and> length new = length pages
        \<and> map fst cv' = map fst cv @ map JStr (page_ids pages)
        \<and> (\<forall>i < length pages.
              listing_request_at hdrs pd csz status (offset + int i * csz) (new ! i))"
proof (induction pages arbitrary: j tr offset cv ps)
  case Nil
  show ?case
    by (intro exI [where x = cv] exI [where x = ps] exI [where x = "[]"])
       (simp add: page_ids_def List.map_filter_def)
next
  case (Cons pg pages)
  have a: "listing_of (answers j) = Some pg" and ok: "page_ok pg"
    and full: "int (length (fst pg)) = csz"
    using Cons.prems(2) [rule_format, of 0] by simp_all
  have d: "distinct (List.map_filter thread_id (fst pg))"
    and d': "distinct (page_ids pages)"
    and disj: "set (List.map_filter thread_id (fst pg)) \<inter> set (page_ids pages) = {}"
    using Cons.prems(3) unfolding page_ids_Cons by auto
  have fresh: "\<forall>s \<in> set (List.map_filter thread_id (fst pg)). dict_find cv (JStr s) = None"
    using Cons.prems(4) unfolding page_ids_Cons by auto
  obtain cv1 ps1 r where
    r: "listing_request_at hdrs pd csz status offset r"
    and step: "convers_loop (Suc (length pages + m)) (replay answers base) hdrs pd csz status offset
                 (cv, ps) tr
               = convers_loop (length pages + m) (replay answers base) hdrs pd csz status
                   (offset + csz) (cv1, ps1) (tr @ [r])"
    and keys1: "map fst cv1 = map fst cv @ map JStr (List.map_filter thread_id (fst pg))"
    using convers_loop_step [where answers = answers and j = j and hdrs = hdrs and pd = pd
        and csz = csz and offset = offset and fuel = "length pages + m" and ps = ps,
        OF st Cons.prems(1) a ok d fresh] full
    by (auto simp del: convers_loop.simps)
  have len1: "length (tr @ [r]) = base + Suc j"
    using Cons.prems(1) by simp
  have rest: "\<forall>i < length pages. listing_of (answers (Suc j + i)) = Some (pages ! i)
                \<and> page_ok (pages ! i) \<and> int (length (fst (pages ! i))) = csz"
    using Cons.prems(2) by (auto dest: spec [where x = "Suc i" for i])
  have fresh1: "\<forall>s \<in> set (page_ids pages). dict_find cv1 (JStr s) = None"
  proof
    fix s assume s: "s \<in> set (page_ids pages)"
    have f: "dict_find cv (JStr s) = None"
      using Cons.prems(4) s unfolding page_ids_Cons by auto
    have n: "s \<notin> set (List.map_filter thread_id (fst pg))"
      using disj s by auto
    show "dict_find cv1 (JStr s) = None"
      by (rule fresh_after [OF keys1 f n])
  qed
  obtain cv' ps' new where
    run: "convers_loop (length pages + m) (replay answers base) hdrs pd csz status (offset + csz)
            (cv1, ps1) (tr @ [r])
          = convers_loop m (replay answers base) hdrs pd csz status
              (offset + csz + int (length pages) * csz) (cv', ps') ((tr @ [r]) @ new)"
    and n: "length new = length pages"
    and keys: "map fst cv' = map fst cv1 @ map JStr (page_ids pages)"
    and reqs: "\<forall>i < length pages.
              listing_request_at hdrs pd csz status (offset + csz + int i * csz) (new ! i)"
    using Cons.IH [OF len1 rest d' fresh1, of "offset + csz" ps1]
    by (elim exE conjE) (rule that; assumption)
  have reqs': "\<forall>i < length (pg # pages).
              listing_request_at hdrs pd csz status (offset + int i * csz) ((r # new) ! i)"
  proof (intro allI impI)
    fix i assume i: "i < length (pg # pages)"
    show "listing_request_at hdrs pd csz status (offset + int i * csz) ((r # new) ! i)"
    proof (cases i)
      case 0
      then show ?thesis using r by simp
    next
      case (Suc k)
      then have "listing_request_at hdrs pd csz status (offset + csz + int k * csz) (new ! k)"
        using reqs i by simp
      then show ?thesis
        using Suc by (simp add: algebra_simps)
    qed
  qed
  have eq: "convers_loop (length (pg # pages) + m) (replay answers base) hdrs pd csz status offset
              (cv, ps) tr
            = convers_loop m (replay answers base) hdrs pd csz status
                (offset + int (length (pg # pages)) * csz) (cv', ps') (tr @ (r # new))"
    using step run by (simp add: algebra_simps del: convers_loop.simps)
  show ?case
    using eq n keys keys1 reqs' unfolding page_ids_Cons
    by (intro exI [where x = cv'] exI [where x = ps'] exI [where x = "r # new"])
       (simp del: convers_loop.simps)
qed

lemma page_ids_append: "page_ids (ps @ qs) = page_ids ps @ page_ids qs"
  by (simp add: page_ids_def List.map_filter_def)

lemma page_ids_length:
  "\<forall>pg \<in> set pages. page_ok pg \<Longrightarrow> length (page_ids pages) = length (concat (map fst pages))"
proof (induction pages)
  case Nil
  then show ?case by (simp add: page_ids_def List.map_filter_def)
next
  case (Cons pg pages)
  have "length (List.map_filter thread_id (fst pg)) = length (fst pg)"
    using Cons.prems by (intro map_filter_thread_id_length [where pts = "snd pg"])
      (simp add: page_ok_def)
  then show ?case
    using Cons unfolding page_ids_Cons by simp
qed

lemma records_count:
  "pages \<noteq> [] \<Longrightarrow> \<forall>i. Suc i < length pages \<longrightarrow> int (length (fst (pages ! i))) = csz \<Longrightarrow>
   int (length (concat (map fst pages)))
     = (int (length pages) - 1) * csz + int (length (fst (last pages)))"
proof (induction pages)
  case Nil
  then show ?case by simp
next
  case (Cons pg pages)
  show ?case
  proof (cases "pages = []")
    case True
    then show ?thesis by simp
  next
    case False
    have "int (length (fst pg)) = csz"
      using Cons.prems(2) [rule_format, of 0] False by simp
    moreover have "\<forall>i. Suc i < length pages \<longrightarrow> int (length (fst (pages ! i))) = csz"
      using Cons.prems(2) by (auto dest: spec [where x = "Suc i" for i])
    ultimately show ?thesis
      using Cons.IH [OF False] False by (simp add: algebra_simps)
  qed
qed

lemma pages_div:
  assumes "(0::int) \<le> r" and "r < csz"
  shows "(k * csz + r) div csz + 1 = k + 1"
  using assms by (simp add: div_pos_pos_trivial)

section \<open>The directory crawl over a paged source\<close>

text \<open>
  C2, as the code has it. The crawl of one status starts at offset 0 against the answers
  \<open>answers 0\<close>, \<open>answers 1\<close>, ... Let answer \<open>i\<close> carry the page \<open>pages ! i\<close>, every record of
  which has the fields the crawl reads; let every page but the last hold exactly \<open>csz\<close>
  thread records and the last one fewer; let the thread identifiers be strings,
  distinct over all pages and not yet in the index. Then, given fuel for one request
  per page, the crawl returns after exactly one request per page, and with \<open>N\<close> records
  in all that is \<open>N div csz + 1\<close> requests; request \<open>i\<close> is the one for the offset
  \<open>i * csz\<close>; the index has gained one entry per record, keyed by the identifiers in
  order, so its keys stay distinct; and after the full pages alone the crawl is still
  running.
\<close>

theorem directory_crawl_pages:
  assumes st: "status = ''inbox'' \<or> status = ''archived''"
    and ne: "pages \<noteq> []"
    and pages: "\<forall>i < length pages. listing_of (answers i) = Some (pages ! i) \<and> page_ok (pages ! i)"
    and full: "\<forall>i. Suc i < length pages \<longrightarrow> int (length (fst (pages ! i))) = csz"
    and short: "int (length (fst (last pages))) < csz"
    and d: "distinct (page_ids pages)"
    and fresh: "\<forall>s \<in> set (page_ids pages). dict_find cv (JStr s) = None"
    and fuel: "length pages \<le> fuel"
  shows "\<exists>cv' ps' new.
      convers_loop fuel (replay answers (length tr)) hdrs pd csz status 0 (cv, ps) tr
        = (tr @ new, Some (Inr (cv', ps')))
      \<and> length new = length pages
      \<and> int (length new) = int (length (concat (map fst pages))) div csz + 1
      \<and> (\<forall>i < length new. listing_request_at hdrs pd csz status (int i * csz) (new ! i))
      \<and> map fst cv' = map fst cv @ map JStr (page_ids pages)
      \<and> length cv' = length cv + length (concat (map fst pages))
      \<and> (distinct (map fst cv) \<longrightarrow> distinct (map fst cv'))
      \<and> (\<exists>new0. convers_loop (length pages - 1) (replay answers (length tr)) hdrs pd csz status 0
                    (cv, ps) tr = (tr @ new0, None)
                 \<and> length new0 = length pages - 1)"
proof -
  let ?srv = "replay answers (length tr)"
  define fulls where "fulls = butlast pages"
  define lastpg where "lastpg = last pages"
  have split: "pages = fulls @ [lastpg]"
    using ne by (simp add: fulls_def lastpg_def)
  have nfull: "length fulls = length pages - 1" and npages: "length pages = Suc (length fulls)"
    by (simp_all add: split)
  have len: "length tr = length tr + 0"
    by simp
  have fulls: "\<forall>i < length fulls. listing_of (answers (0 + i)) = Some (fulls ! i)
                 \<and> page_ok (fulls ! i) \<and> int (length (fst (fulls ! i))) = csz"
  proof (intro allI impI)
    fix i assume i: "i < length fulls"
    then have "fulls ! i = pages ! i"
      by (simp add: split nth_append)
    then show "listing_of (answers (0 + i)) = Some (fulls ! i)
                 \<and> page_ok (fulls ! i) \<and> int (length (fst (fulls ! i))) = csz"
      using pages [rule_format, of i] full [rule_format, of i] i npages by simp
  qed
  have dfulls: "distinct (page_ids fulls)"
    and dlast: "distinct (List.map_filter thread_id (fst lastpg))"
    and disj: "set (page_ids fulls) \<inter> set (List.map_filter thread_id (fst lastpg)) = {}"
    using d unfolding split page_ids_append by (simp_all add: page_ids_def)
  have ffulls: "\<forall>s \<in> set (page_ids fulls). dict_find cv (JStr s) = None"
    using fresh unfolding split page_ids_append by simp
  have prefix: "\<exists>cv1 ps1 new1.
        convers_loop (length fulls + m) ?srv hdrs pd csz status 0 (cv, ps) tr
          = convers_loop m ?srv hdrs pd csz status (0 + int (length fulls) * csz) (cv1, ps1)
              (tr @ new1)
        \<and> length new1 = length fulls
        \<and> map fst cv1 = map fst cv @ map JStr (page_ids fulls)
        \<and> (\<forall>i < length fulls. listing_request_at hdrs pd csz status (0 + int i * csz) (new1 ! i))"
    for m
    by (rule convers_loop_prefix [OF st len fulls dfulls ffulls])
  have running: "\<exists>new0. convers_loop (length pages - 1) ?srv hdrs pd csz status 0 (cv, ps) tr
                    = (tr @ new0, None) \<and> length new0 = length pages - 1"
    using prefix [of 0] unfolding nfull by (auto simp del: convers_loop.simps(2))
  define m where "m = fuel - length pages"
  have fuel_eq: "fuel = length fulls + Suc m"
    using fuel by (simp add: m_def npages)
  obtain cv1 ps1 new1 where
    run1: "convers_loop (length fulls + Suc m) ?srv hdrs pd csz status 0 (cv, ps) tr
          = convers_loop (Suc m) ?srv hdrs pd csz status (0 + int (length fulls) * csz) (cv1, ps1)
              (tr @ new1)"
    and n1: "length new1 = length fulls"
    and keys1: "map fst cv1 = map fst cv @ map JStr (page_ids fulls)"
    and reqs1: "\<forall>i < length fulls. listing_request_at hdrs pd csz status (0 + int i * csz) (new1 ! i)"
    using prefix [of "Suc m"] by (elim exE conjE) (rule that; assumption)
  have len1: "length (tr @ new1) = length tr + length fulls"
    using n1 by simp
  have alast: "listing_of (answers (length fulls)) = Some lastpg" and oklast: "page_ok lastpg"
    using pages [rule_format, of "length fulls"] by (simp_all add: split)
  have flast: "\<forall>s \<in> set (List.map_filter thread_id (fst lastpg)). dict_find cv1 (JStr s) = None"
  proof
    fix s assume s: "s \<in> set (List.map_filter thread_id (fst lastpg))"
    have f: "dict_find cv (JStr s) = None"
      using fresh s unfolding split page_ids_append by (simp add: page_ids_def)
    have n: "s \<notin> set (page_ids fulls)"
      using disj s by auto
    show "dict_find cv1 (JStr s) = None"
      by (rule fresh_after [OF keys1 f n])
  qed
  have shortlast: "int (length (fst lastpg)) < csz"
    using short by (simp add: lastpg_def)
  obtain cv' ps' r where
    r: "listing_request_at hdrs pd csz status (0 + int (length fulls) * csz) r"
    and run2: "convers_loop (Suc m) ?srv hdrs pd csz status (0 + int (length fulls) * csz) (cv1, ps1)
                 (tr @ new1) = ((tr @ new1) @ [r], Some (Inr (cv', ps')))"
    and keys2: "map fst cv' = map fst cv1 @ map JStr (List.map_filter thread_id (fst lastpg))"
    using convers_loop_step [where answers = answers and j = "length fulls" and hdrs = hdrs
        and pd = pd and csz = csz and offset = "0 + int (length fulls) * csz" and fuel = m
        and ps = ps1, OF st len1 alast oklast dlast flast] shortlast
    by (auto simp del: convers_loop.simps)
  let ?new = "new1 @ [r]"
  have result: "convers_loop fuel ?srv hdrs pd csz status 0 (cv, ps) tr
                  = (tr @ ?new, Some (Inr (cv', ps')))"
    unfolding fuel_eq run1 run2 by simp
  have nnew: "length ?new = length pages"
    using n1 by (simp add: npages)
  have keys: "map fst cv' = map fst cv @ map JStr (page_ids pages)"
    using keys1 keys2 unfolding split page_ids_append by (simp add: page_ids_def)
  have okall: "\<forall>pg \<in> set pages. page_ok pg"
  proof
    fix pg assume "pg \<in> set pages"
    then obtain i where "i < length pages" and "pages ! i = pg"
      by (auto simp: in_set_conv_nth)
    then show "page_ok pg"
      using pages [rule_format, of i] by simp
  qed
  have count: "length (page_ids pages) = length (concat (map fst pages))"
    by (rule page_ids_length [OF okall])
  have lencv: "length cv' = length cv + length (concat (map fst pages))"
  proof -
    have "length (map fst cv') = length (map fst cv @ map JStr (page_ids pages))"
      using keys by simp
    then show ?thesis
      using count by simp
  qed
  have reqs: "\<forall>i < length ?new. listing_request_at hdrs pd csz status (int i * csz) (?new ! i)"
  proof (intro allI impI)
    fix i assume i: "i < length ?new"
    show "listing_request_at hdrs pd csz status (int i * csz) (?new ! i)"
    proof (cases "i < length fulls")
      case True
      then show ?thesis
        using reqs1 [rule_format, of i] n1 by (simp add: nth_append)
    next
      case False
      then have "i = length fulls"
        using i n1 by simp
      then show ?thesis
        using r n1 by (simp add: nth_append)
    qed
  qed
  have number: "int (length ?new) = int (length (concat (map fst pages))) div csz + 1"
  proof -
    have "int (length (concat (map fst pages)))
            = (int (length pages) - 1) * csz + int (length (fst (last pages)))"
      by (rule records_count [OF ne full])
    then have "int (length (concat (map fst pages))) div csz + 1 = (int (length pages) - 1) + 1"
      using pages_div [of "int (length (fst (last pages)))" csz "int (length pages) - 1"] short
      by simp
    then show ?thesis
      using nnew by simp
  qed
  have dist: "distinct (map fst cv) \<longrightarrow> distinct (map fst cv')"
  proof
    assume dcv: "distinct (map fst cv)"
    have nin: "JStr s \<notin> set (map fst cv)" if "s \<in> set (page_ids pages)" for s
    proof
      assume "JStr s \<in> set (map fst cv)"
      then have "dict_key (JStr s) \<in> dict_key ` fst ` set cv"
        by (metis image_eqI set_map)
      then show False
        using fresh that by (simp add: dict_find_None_iff)
    qed
    have "set (map fst cv) \<inter> set (map JStr (page_ids pages)) = {}"
    proof (rule ccontr)
      assume "set (map fst cv) \<inter> set (map JStr (page_ids pages)) \<noteq> {}"
      then obtain x where x1: "x \<in> set (map fst cv)"
        and x2: "x \<in> set (map JStr (page_ids pages))"
        by blast
      obtain s where "s \<in> set (page_ids pages)" and "x = JStr s"
        using x2 by auto
      then show False
        using nin x1 by blast
    qed
    moreover have "distinct (map JStr (page_ids pages))"
      using d by (simp add: distinct_map inj_on_def)
    ultimately show "distinct (map fst cv')"
      using dcv unfolding keys by simp
  qed
  show ?thesis
    apply (rule exI [where x = cv'])
    apply (rule exI [where x = ps'])
    apply (rule exI [where x = ?new])
    apply (intro conjI)
    apply (fact result nnew number reqs keys lencv dist running)+
    done
qed

text \<open>
  With page size 2, a page of two conversations and a page of one: two requests, for
  the offsets 0 and 2, then three keys in the index; after the first page alone the
  crawl has not returned.
\<close>

theorem directory_crawl_pages_witness:
  "(case convers_loop 2 (replay two_pages 0) [] [] 2 ''inbox'' 0 ([], []) [] of
      (tr', Some (Inr (cv', ps'))) \<Rightarrow>
        length tr' = 2
        \<and> map fst cv' = [JStr ''1'', JStr ''2'', JStr ''3'']
        \<and> listing_request_at [] [] 2 ''inbox'' 0 (tr' ! 0)
        \<and> listing_request_at [] [] 2 ''inbox'' 2 (tr' ! 1)
    | _ \<Rightarrow> False)
   \<and> snd (convers_loop 1 (replay two_pages 0) [] [] 2 ''inbox'' 0 ([], []) []) = None"
proof -
  let ?pages = "[([group_thread ''1'', direct_thread ''2'' ''u1''], [participant ''u1'' ''Ann'']),
                 ([group_thread ''3''], [])]"
  have st: "''inbox'' = ''inbox'' \<or> ''inbox'' = ''archived''"
    by simp
  have ne: "?pages \<noteq> []"
    by simp
  have pages: "\<forall>i < length ?pages. listing_of (two_pages i) = Some (?pages ! i)
                 \<and> page_ok (?pages ! i)"
    by (auto simp: less_Suc_eq two_pages_def listing_answer_def listing_of_def page_ok_def
        participant_ok_def thread_ok_def thread_id_def has_fbid_def group_thread_def
        direct_thread_def participant_def)
  have full: "\<forall>i. Suc i < length ?pages \<longrightarrow> int (length (fst (?pages ! i))) = 2"
    by (auto simp: less_Suc_eq)
  have short: "int (length (fst (last ?pages))) < 2"
    by simp
  have ids: "page_ids ?pages = [''1'', ''2'', ''3'']"
    by (simp add: page_ids_def List.map_filter_def thread_id_def group_thread_def
        direct_thread_def)
  have d: "distinct (page_ids ?pages)"
    unfolding ids by simp
  have fresh: "\<forall>s \<in> set (page_ids ?pages). dict_find ([] :: convers_index) (JStr s) = None"
    by simp
  have fuel: "length ?pages \<le> 2"
    by simp
  obtain cv' ps' new where
    run: "convers_loop 2 (replay two_pages (length ([] :: request list))) [] [] 2 ''inbox'' 0
            ([], []) [] = ([] @ new, Some (Inr (cv', ps')))"
    and n: "length new = length ?pages"
    and reqs: "\<forall>i < length new. listing_request_at [] [] 2 ''inbox'' (int i * 2) (new ! i)"
    and keys: "map fst cv' = map fst ([] :: convers_index) @ map JStr (page_ids ?pages)"
    using directory_crawl_pages [OF st ne pages full short d fresh fuel, of "[]" "[]" "[]" "[]"]
    by (elim exE conjE) (rule that; assumption)
  have running: "\<exists>new0. convers_loop (length ?pages - 1)
                    (replay two_pages (length ([] :: request list))) [] [] 2 ''inbox'' 0
                    ([], []) [] = ([] @ new0, None) \<and> length new0 = length ?pages - 1"
    using directory_crawl_pages [OF st ne pages full short d fresh fuel, of "[]" "[]" "[]" "[]"]
    by (elim exE conjE) (intro exI conjI; assumption)
  have r0: "listing_request_at [] [] 2 ''inbox'' 0 (new ! 0)"
    using reqs [rule_format, of 0] n by simp
  have r1: "listing_request_at [] [] 2 ''inbox'' 2 (new ! 1)"
    using reqs [rule_format, of 1] n by simp
  have a: "(case convers_loop 2 (replay two_pages 0) [] [] 2 ''inbox'' 0 ([], []) [] of
      (tr', Some (Inr (cv', ps'))) \<Rightarrow>
        length tr' = 2
        \<and> map fst cv' = [JStr ''1'', JStr ''2'', JStr ''3'']
        \<and> listing_request_at [] [] 2 ''inbox'' 0 (tr' ! 0)
        \<and> listing_request_at [] [] 2 ''inbox'' 2 (tr' ! 1)
    | _ \<Rightarrow> False)"
    using run n keys r0 r1 unfolding ids by (simp del: convers_loop.simps)
  have b: "snd (convers_loop 1 (replay two_pages 0) [] [] 2 ''inbox'' 0 ([], []) []) = None"
    using running by (auto simp del: convers_loop.simps)
  show ?thesis
    using a b by (rule conjI)
qed

text \<open>
  C2 as stated counts ceil(N / pageSize) requests. A source with no conversation at all
  (\<open>N = 0\<close>) answers with one empty page, which is shorter than the page size 1000: the
  crawl of the status issues one request and returns the empty index, and ceil(0 / 1000),
  written with integer division, is 0.
\<close>

theorem empty_listing_counterexample:
  "convers_loop 5 empty_listing [] [] chunk_size_convers ''inbox'' 0 ([], []) []
     = ([\<lparr>url = url_convers_list, req_headers = [],
          req_data = [(''inbox[offset]'', JStr ''0''), (''inbox[limit]'', JStr ''1000''),
                      (''inbox[filter]'', JStr []), (''client'', JStr ''web_messenger'')]\<rparr>],
        Some (Inr ([], [])))
   \<and> (0 + chunk_size_convers - 1) div chunk_size_convers = 0"
proof
  show "convers_loop 5 empty_listing [] [] chunk_size_convers ''inbox'' 0 ([], []) []
     = ([\<lparr>url = url_convers_list, req_headers = [],
          req_data = [(''inbox[offset]'', JStr ''0''), (''inbox[limit]'', JStr ''1000''),
                      (''inbox[filter]'', JStr []), (''client'', JStr ''web_messenger'')]\<rparr>],
        Some (Inr ([], [])))"
    by code_simp
  show "(0 + chunk_size_convers - 1) div chunk_size_convers = 0"
    by (simp add: chunk_size_convers_def)
qed

section \<open>Malformed pages\<close>

lemma bind_Inr: "bind m f = Inr y \<Longrightarrow> \<exists>x. m = Inr x \<and> f x = Inr y"
  by (cases m) (simp_all add: bind_def)

lemma py_getitem_Inr: "py_getitem j k = Inr v \<Longrightarrow> \<exists>kv. j = JObj kv \<and> map_of kv k = Some v"
  by (cases j) (auto split: option.splits)

lemma merge_participants_fields:
  "merge_participants ps pts = Inr ps' \<Longrightarrow> \<forall>p \<in> set pts. \<not> participant_field_missing p"
proof (induction pts arbitrary: ps)
  case Nil
  then show ?case by simp
next
  case (Cons p pts)
  obtain name where n: "py_getitem p ''name'' = Inr name"
    and r1: "bind (py_getitem p ''fbid'') (\<lambda>fbid.
             bind (dict_set ps fbid name) (\<lambda>ps'. merge_participants ps' pts)) = Inr ps'"
    using Cons.prems by (auto dest: bind_Inr)
  obtain fbid where f: "py_getitem p ''fbid'' = Inr fbid"
    and r2: "bind (dict_set ps fbid name) (\<lambda>ps'. merge_participants ps' pts) = Inr ps'"
    using r1 by (auto dest: bind_Inr)
  obtain ps1 where "merge_participants ps1 pts = Inr ps'"
    using r2 by (auto dest: bind_Inr)
  then have rest: "\<forall>p \<in> set pts. \<not> participant_field_missing p"
    by (rule Cons.IH)
  have "\<not> participant_field_missing p"
    using n f by (auto simp: participant_field_missing_def dest!: py_getitem_Inr)
  then show ?case
    using rest by simp
qed

lemma thread_entry_fields:
  assumes "thread_entry status ps cur c = Inr x"
  shows "\<not> thread_field_missing c"
proof -
  obtain tt where tt: "py_getitem c ''thread_type'' = Inr tt"
    and r1: "bind (if py_eq_int tt 2 then
             bind (py_getitem c ''name'') (\<lambda>name.
               Inr (cur\<lparr>c_type := Some GROUP, c_name := Some name\<rparr>))
           else if py_eq_int tt 1 then
             bind (py_getitem c ''other_user_fbid'') (\<lambda>other.
             bind (dict_get ps other) (\<lambda>name.
               Inr (cur\<lparr>c_type := Some USER, c_name := Some name\<rparr>)))
           else Inr cur) (\<lambda>cur.
     bind (py_getitem c ''participants'') (\<lambda>parts.
     bind (py_getitem c ''last_message_timestamp'') (\<lambda>ts.
     bind (py_getitem c ''thread_fbid'') (\<lambda>thread_fbid.
       Inr (cur\<lparr>c_status := Some status, c_participants := Some parts,
                c_last_message_timestamp := Some ts\<rparr>, thread_fbid))))) = Inr x"
    using assms unfolding thread_entry_def by (auto dest: bind_Inr)
  obtain kv where c: "c = JObj kv" and t: "map_of kv ''thread_type'' = Some tt"
    using tt by (auto dest: py_getitem_Inr)
  obtain cur1 where
    nm: "(if py_eq_int tt 2 then
             bind (py_getitem c ''name'') (\<lambda>name.
               Inr (cur\<lparr>c_type := Some GROUP, c_name := Some name\<rparr>))
           else if py_eq_int tt 1 then
             bind (py_getitem c ''other_user_fbid'') (\<lambda>other.
             bind (dict_get ps other) (\<lambda>name.
               Inr (cur\<lparr>c_type := Some USER, c_name := Some name\<rparr>)))
           else Inr cur) = Inr cur1"
    and r2: "bind (py_getitem c ''participants'') (\<lambda>parts.
     bind (py_getitem c ''last_message_timestamp'') (\<lambda>ts.
     bind (py_getitem c ''thread_fbid'') (\<lambda>thread_fbid.
       Inr (cur1\<lparr>c_status := Some status, c_participants := Some parts,
                c_last_message_timestamp := Some ts\<rparr>, thread_fbid)))) = Inr x"
    using r1 by (auto dest: bind_Inr)
  obtain parts ts k where "py_getitem c ''participants'' = Inr parts"
    and "py_getitem c ''last_message_timestamp'' = Inr ts"
    and "py_getitem c ''thread_fbid'' = Inr k"
    using r2 by (auto dest!: bind_Inr)
  then have rest: "map_of kv ''participants'' \<noteq> None"
    "map_of kv ''last_message_timestamp'' \<noteq> None" "map_of kv ''thread_fbid'' \<noteq> None"
    using c by (auto split: option.splits)
  have name: "py_eq_int tt 2 \<longrightarrow> map_of kv ''name'' \<noteq> None"
    using nm c by (auto simp: bind_def split: option.splits)
  have other: "\<not> py_eq_int tt 2 \<and> py_eq_int tt 1 \<longrightarrow> map_of kv ''other_user_fbid'' \<noteq> None"
    using nm c by (auto simp: bind_def split: option.splits)
  show ?thesis
    using c t rest name other by (auto simp: thread_field_missing_def)
qed

lemma merge_threads_fields:
  "merge_threads status ps cur cv ths = Inr cv' \<Longrightarrow> \<forall>c \<in> set ths. \<not> thread_field_missing c"
proof (induction ths arbitrary: cur cv)
  case Nil
  then show ?case by simp
next
  case (Cons c ths)
  obtain entry where e: "thread_entry status ps cur c = Inr entry"
    and r1: "bind (dict_set cv (snd entry) (fst entry)) (\<lambda>cv'.
               merge_threads status ps (fst entry) cv' ths) = Inr cv'"
    using Cons.prems by (auto dest: bind_Inr)
  obtain cv1 where "merge_threads status ps (fst entry) cv1 ths = Inr cv'"
    using r1 by (auto dest: bind_Inr)
  then have "\<forall>c \<in> set ths. \<not> thread_field_missing c"
    by (rule Cons.IH)
  then show ?case
    using thread_entry_fields [OF e] by simp
qed

lemma merge_page_fields:
  assumes a: "listing_of a = Some (ths, pts)"
    and ok: "merge_page status csz st a = Inr y"
  shows "(\<forall>p \<in> set pts. \<not> participant_field_missing p)
         \<and> (\<forall>c \<in> set ths. \<not> thread_field_missing c)"
proof -
  obtain kvs pl where aj: "a = JObj kvs" and pl: "map_of kvs ''payload'' = Some (JObj pl)"
    and t: "map_of pl ''threads'' = Some (JArr ths)"
    and p: "map_of pl ''participants'' = Some (JArr pts)"
    using a by (auto simp: listing_of_def split: json.splits option.splits)
  obtain ps' cv' where mp: "merge_participants (snd st) pts = Inr ps'"
    and mt: "merge_threads status ps' empty_convers (fst st) ths = Inr cv'"
    using ok unfolding merge_page_def aj
    by (auto simp: pl t p bind_def split: sum.splits)
  show ?thesis
    using merge_participants_fields [OF mp] merge_threads_fields [OF mt] by simp
qed

lemma participants_reached_merged:
  "merge_participants ps pts = Inr ps' \<Longrightarrow> participants_reached ps pts = ps'"
proof (induction pts arbitrary: ps)
  case Nil
  then show ?case by simp
next
  case (Cons p pts)
  then show ?case
    by (auto simp: bind_def split: sum.splits)
qed

lemma index_reached_merged:
  "merge_threads status ps cur cv ths = Inr cv' \<Longrightarrow> index_reached status ps cur cv ths = cv'"
proof (induction ths arbitrary: cur cv)
  case Nil
  then show ?case by simp
next
  case (Cons c ths)
  then show ?case
    by (auto simp: bind_def split: sum.splits)
qed

lemma page_reached_merged:
  assumes "merge_page status csz st a = Inr (st', b)"
  shows "page_reached status st a = st'"
  using assms
  by (auto simp: merge_page_def page_reached_def bind_def participants_reached_merged
      index_reached_merged split: sum.splits)

lemma participants_reached_append:
  "merge_participants ps good = Inr ps1 \<Longrightarrow>
   participants_reached ps (good @ rest) = participants_reached ps1 rest"
proof (induction good arbitrary: ps)
  case Nil
  then show ?case by simp
next
  case (Cons p good)
  then show ?case
    by (auto simp: bind_def split: sum.splits)
qed

lemma participants_reached_missing:
  "participant_field_missing bad \<Longrightarrow> participants_reached ps (bad # rest) = ps"
  by (auto simp: participant_field_missing_def bind_def split: json.splits sum.splits option.splits)

lemma index_reached_append:
  "merge_threads status ps cur cv good = Inr cv1 \<Longrightarrow>
   \<exists>cur1. index_reached status ps cur cv (good @ rest) = index_reached status ps cur1 cv1 rest"
proof (induction good arbitrary: cur cv)
  case Nil
  then show ?case by auto
next
  case (Cons c good)
  obtain entry where e: "thread_entry status ps cur c = Inr entry"
    and r1: "bind (dict_set cv (snd entry) (fst entry)) (\<lambda>cv'.
               merge_threads status ps (fst entry) cv' good) = Inr cv1"
    using Cons.prems by (auto dest: bind_Inr)
  obtain cv2 where s: "dict_set cv (snd entry) (fst entry) = Inr cv2"
    and m: "merge_threads status ps (fst entry) cv2 good = Inr cv1"
    using r1 by (auto dest: bind_Inr)
  from Cons.IH [OF m] obtain cur1 where
    "index_reached status ps (fst entry) cv2 (good @ rest) = index_reached status ps cur1 cv1 rest"
    by blast
  then have "index_reached status ps cur cv ((c # good) @ rest)
               = index_reached status ps cur1 cv1 rest"
    using e s by simp
  then show ?case by blast
qed

lemma index_reached_missing:
  assumes "thread_field_missing bad"
  shows "index_reached status ps cur cv (bad # rest) = cv"
proof (cases "thread_entry status ps cur bad")
  case (Inl e)
  then show ?thesis by simp
next
  case (Inr entry)
  then show ?thesis
    using thread_entry_fields [OF Inr] assms by simp
qed

lemma merge_threads_Inr:
  assumes known: "\<forall>u. has_fbid pts u \<longrightarrow> dict_find ps u \<noteq> None"
  shows "\<forall>c \<in> set ths. thread_ok pts c \<Longrightarrow> \<exists>cv'. merge_threads status ps cur cv ths = Inr cv'"
proof (induction ths arbitrary: cur cv)
  case Nil
  then show ?case by simp
next
  case (Cons c ths)
  have "thread_ok pts c" using Cons.prems by simp
  from thread_entry_ok [OF this known] obtain cur' s where
    e: "thread_entry status ps cur c = Inr (cur', JStr s)"
    by blast
  have rest: "\<forall>c \<in> set ths. thread_ok pts c" using Cons.prems by simp
  from Cons.IH [OF rest] obtain cv' where
    "merge_threads status ps cur' (dict_store cv (JStr s) cur') ths = Inr cv'"
    by blast
  then show ?case
    using e by (simp add: bind_def dict_set_def)
qed

lemma listing_of_page:
  assumes "listing_of a = Some (ths, pts)"
  shows "bind (py_getitem a ''payload'') (\<lambda>payload.
         bind (py_getitem payload ''threads'') (\<lambda>json_threads.
         bind (py_getitem payload ''participants'') (\<lambda>json_participants.
         bind (py_iter json_participants) (\<lambda>parts.
           Inr (json_threads, parts))))) = Inr (JArr ths, pts)"
  using assms
  by (auto simp: listing_of_def bind_def split: json.splits option.splits)

lemma page_reached_participant:
  assumes a: "listing_of a = Some (ths, good @ bad # rest)"
    and good: "\<forall>p \<in> set good. participant_ok p"
    and bad: "participant_field_missing bad"
  shows "\<exists>ps1. merge_participants (snd st) good = Inr ps1
              \<and> page_reached status st a = (fst st, ps1)"
proof -
  obtain ps1 where m: "merge_participants (snd st) good = Inr ps1"
    using merge_participants_ok [OF good, of "snd st"] by blast
  have fail: "\<exists>e. merge_participants (snd st) (good @ bad # rest) = Inl e"
  proof (cases "merge_participants (snd st) (good @ bad # rest)")
    case (Inl e)
    then show ?thesis by blast
  next
    case (Inr y)
    then show ?thesis
      using merge_participants_fields [OF Inr] bad by simp
  qed
  then obtain e where e: "merge_participants (snd st) (good @ bad # rest) = Inl e" ..
  have "participants_reached (snd st) (good @ bad # rest) = ps1"
    using participants_reached_append [OF m, of "bad # rest"]
    by (simp only: participants_reached_missing [OF bad])
  then have "page_reached status st a = (fst st, ps1)"
    by (simp add: page_reached_def listing_of_page [OF a] e)
  then show ?thesis using m by blast
qed

lemma page_reached_thread:
  assumes a: "listing_of a = Some (good @ bad # rest, pts)"
    and pts: "\<forall>p \<in> set pts. participant_ok p"
    and good: "\<forall>c \<in> set good. thread_ok pts c"
    and bad: "thread_field_missing bad"
  shows "\<exists>ps' cv1. merge_participants (snd st) pts = Inr ps'
              \<and> merge_threads status ps' empty_convers (fst st) good = Inr cv1
              \<and> page_reached status st a = (cv1, ps')"
proof -
  obtain ps' where m: "merge_participants (snd st) pts = Inr ps'"
    and known: "\<forall>u. has_fbid pts u \<longrightarrow> dict_find ps' u \<noteq> None"
    using merge_participants_ok [OF pts, of "snd st"] by auto
  obtain cv1 where t: "merge_threads status ps' empty_convers (fst st) good = Inr cv1"
    using merge_threads_Inr [OF known good] by blast
  from index_reached_append [OF t, of "bad # rest"] obtain cur1 where
    "index_reached status ps' empty_convers (fst st) (good @ bad # rest)
       = index_reached status ps' cur1 cv1 (bad # rest)"
    by blast
  then have "index_reached status ps' empty_convers (fst st) (good @ bad # rest) = cv1"
    by (simp only: index_reached_missing [OF bad])
  then have "page_reached status st a = (cv1, ps')"
    by (simp add: page_reached_def listing_of_page [OF a] m)
  then show ?thesis using m t by blast
qed

text \<open>
  C6, as the code has it. Let a page hold a participant record or a thread record that
  lacks a field the crawl reads from it. Then \<open>merge_page\<close> raises on it, whatever the
  two dictionaries hold, and the loop of a status that gets this page as the answer to
  its next request ends with the error right after that request, from every offset.
  The constructor returns an object only when the loops of both statuses returned
  dictionaries, and the object holds the ones the second loop returned: after a
  malformed page there is no object, and what the crawl has collected, from this page
  and from the pages before it, reaches no caller. Nothing is taken back, though. When
  the first faulty record is a participant, the directory holds the participants in
  front of it when the error is raised. When the participants are well formed and the
  first faulty record is a thread, the directory holds all participants of the page
  and the index holds the threads in front of the faulty one.
\<close>

theorem malformed_page_fatal:
  assumes "listing_of a = Some (ths, pts)"
    and "(\<exists>p \<in> set pts. participant_field_missing p) \<or> (\<exists>c \<in> set ths. thread_field_missing c)"
  shows "(\<exists>e. merge_page status csz st a = Inl e)
     \<and> ((status = ''inbox'' \<or> status = ''archived'') \<and> (\<forall>r. srv (tr @ [r]) = a) \<longrightarrow>
          (\<exists>r e. convers_loop (Suc fuel) srv hdrs pd csz status offset st tr
                   = (tr @ [r], Some (Inl e))))
     \<and> (FBDumper_init fuel' srv' read_file ids raw infile csize tmr out tr0 = (tr', Some (Inr d)) \<longrightarrow>
          (\<exists>tr1 st1.
             convers_loop fuel' srv' (headers d) (post_data d) chunk_size_convers ''inbox'' 0
               ([], []) tr0 = (tr1, Some (Inr st1))
             \<and> convers_loop fuel' srv' (headers d) (post_data d) chunk_size_convers ''archived'' 0
                 st1 tr1 = (tr', Some (Inr (convers d, participants d)))))
     \<and> (pts = good @ bad # rest \<and> (\<forall>p \<in> set good. participant_ok p)
          \<and> participant_field_missing bad \<longrightarrow>
          (\<exists>ps1. merge_participants (snd st) good = Inr ps1
                 \<and> page_reached status st a = (fst st, ps1)))
     \<and> ((\<forall>p \<in> set pts. participant_ok p) \<and> ths = good_ths @ bad_th # rest_ths
          \<and> (\<forall>c \<in> set good_ths. thread_ok pts c) \<and> thread_field_missing bad_th \<longrightarrow>
          (\<exists>ps' cv1. merge_participants (snd st) pts = Inr ps'
                 \<and> merge_threads status ps' empty_convers (fst st) good_ths = Inr cv1
                 \<and> page_reached status st a = (cv1, ps')))"
proof (intro conjI impI)
  show fails: "\<exists>e. merge_page status csz st a = Inl e" for status csz st
  proof (cases "merge_page status csz st a")
    case (Inl e)
    then show ?thesis by blast
  next
    case (Inr y)
    then show ?thesis
      using merge_page_fields [OF assms(1) Inr] assms(2) by blast
  qed
  show "\<exists>r e. convers_loop (Suc fuel) srv hdrs pd csz status offset st tr
                 = (tr @ [r], Some (Inl e))"
    if h: "(status = ''inbox'' \<or> status = ''archived'') \<and> (\<forall>r. srv (tr @ [r]) = a)"
  proof -
    obtain dat where dat: "list_data status offset csz = Inr dat"
      using h list_data_status by blast
    let ?r = "\<lparr>url = url_convers_list, req_headers = hdrs, req_data = dict_update_all dat pd\<rparr>"
    have "srv (tr @ [?r]) = a"
      using h by blast
    then have mr: "make_request srv hdrs url_convers_list (dict_update_all dat pd) tr
                     = (tr @ [?r], Inr a)"
      using assms(1) by (intro listing_request) auto
    obtain e where e: "merge_page status csz st a = Inl e"
      using fails by blast
    have "convers_loop (Suc fuel) srv hdrs pd csz status offset st tr = (tr @ [?r], Some (Inl e))"
      using dat mr e by simp
    then show ?thesis
      by blast
  qed
  show "\<exists>tr1 st1.
             convers_loop fuel' srv' (headers d) (post_data d) chunk_size_convers ''inbox'' 0
               ([], []) tr0 = (tr1, Some (Inr st1))
             \<and> convers_loop fuel' srv' (headers d) (post_data d) chunk_size_convers ''archived'' 0
                 st1 tr1 = (tr', Some (Inr (convers d, participants d)))"
    if "FBDumper_init fuel' srv' read_file ids raw infile csize tmr out tr0 = (tr', Some (Inr d))"
    using that
    by (auto simp: FBDumper_init_def get_all_convers_metadata_def
        split: sum.splits if_splits prod.splits option.splits simp del: convers_loop.simps)
  show "\<exists>ps1. merge_participants (snd st) good = Inr ps1
              \<and> page_reached status st a = (fst st, ps1)"
    if h: "pts = good @ bad # rest \<and> (\<forall>p \<in> set good. participant_ok p)
             \<and> participant_field_missing bad"
  proof -
    have a: "listing_of a = Some (ths, good @ bad # rest)"
      using assms(1) h by simp
    show ?thesis
      using h by (intro page_reached_participant [OF a]) simp_all
  qed
  show "\<exists>ps' cv1. merge_participants (snd st) pts = Inr ps'
              \<and> merge_threads status ps' empty_convers (fst st) good_ths = Inr cv1
              \<and> page_reached status st a = (cv1, ps')"
    if h: "(\<forall>p \<in> set pts. participant_ok p) \<and> ths = good_ths @ bad_th # rest_ths
             \<and> (\<forall>c \<in> set good_ths. thread_ok pts c) \<and> thread_field_missing bad_th"
  proof -
    have a: "listing_of a = Some (good_ths @ bad_th # rest_ths, pts)"
      using assms(1) h by simp
    show ?thesis
      using h by (intro page_reached_thread [OF a]) simp_all
  qed
qed

text \<open>
  A page with a group that has no name: \<open>merge_page\<close> and the loop fail with the KeyError
  for \<open>name\<close>, and so does the constructor against a service that sends this page; the
  constructor that succeeds against the empty listing holds what the two loops
  returned. On the page with a well-formed group in front of the nameless one, the
  dictionaries reached are the participant and the first group merged.
\<close>

theorem malformed_page_fatal_witness:
  "merge_page ''inbox'' chunk_size_convers ([(JStr ''a'', sample_convers)], [])
         nameless_group_page = Inl (KeyError (JStr ''name''))
   \<and> (\<exists>r e. convers_loop (Suc 0) malformed_listing [] [] chunk_size_convers ''archived'' 0
                ([(JStr ''a'', sample_convers)], []) [] = ([] @ [r], Some (Inl e)))
   \<and> snd (FBDumper_init 3 malformed_listing (\<lambda>p. None) None (Some sample_raw_data) None 2000 1
            ''output'' []) = Some (Inl (KeyError (JStr ''name'')))
   \<and> (\<exists>tr' d tr1 st1.
         FBDumper_init 1 empty_listing (\<lambda>p. None) None (Some sample_raw_data) None 2000 1
           ''output'' [] = (tr', Some (Inr d))
         \<and> convers_loop 1 empty_listing (headers d) (post_data d) chunk_size_convers ''inbox'' 0
             ([], []) [] = (tr1, Some (Inr st1))
         \<and> convers_loop 1 empty_listing (headers d) (post_data d) chunk_size_convers ''archived'' 0
             st1 tr1 = (tr', Some (Inr (convers d, participants d))))
   \<and> (\<exists>ps' cv1.
         merge_participants [] [participant ''u1'' ''Ann''] = Inr ps'
         \<and> merge_threads ''inbox'' ps' empty_convers [] [group_thread ''1''] = Inr cv1
         \<and> page_reached ''inbox'' ([], []) half_good_page = (cv1, ps'))"
proof -
  let ?c = "JObj [(''thread_type'', JNum 2), (''participants'', JArr []),
                  (''last_message_timestamp'', JNum 0), (''thread_fbid'', JStr ''9'')]"
  have a: "listing_of nameless_group_page = Some ([?c], [participant ''u1'' ''Ann''])"
    by (simp add: nameless_group_page_def listing_answer_def listing_of_def)
  have m: "(\<exists>p \<in> set [participant ''u1'' ''Ann'']. participant_field_missing p)
           \<or> (\<exists>c \<in> set [?c]. thread_field_missing c)"
    by (simp add: thread_field_missing_def)
  have srv: "(''archived'' = ''inbox'' \<or> ''archived'' = ''archived'')
             \<and> (\<forall>r. malformed_listing ([] @ [r]) = nameless_group_page)"
    by (simp add: malformed_listing_def)
  have "case FBDumper_init 1 empty_listing (\<lambda>p. None) None (Some sample_raw_data) None 2000 1
               ''output'' [] of
          (tr', Some (Inr d)) \<Rightarrow> True
        | _ \<Rightarrow> False"
    by code_simp
  then obtain tr' d where
    init: "FBDumper_init 1 empty_listing (\<lambda>p. None) None (Some sample_raw_data) None 2000 1
             ''output'' [] = (tr', Some (Inr d))"
    by (auto split: prod.splits option.splits sum.splits)
  note inst = malformed_page_fatal [OF a m, where status = "''archived''"
      and csz = chunk_size_convers and st = "([(JStr ''a'', sample_convers)], [])"
      and srv = malformed_listing and tr = "[]" and fuel = 0 and hdrs = "[]" and pd = "[]"
      and offset = 0 and fuel' = 1 and srv' = empty_listing and read_file = "\<lambda>p. None"
      and ids = None and raw = "Some sample_raw_data" and infile = None and csize = 2000
      and tmr = 1 and out = "''output''" and ?tr0.0 = "[]" and tr' = tr' and d = d]
  have c2: "merge_page ''inbox'' chunk_size_convers ([(JStr ''a'', sample_convers)], [])
         nameless_group_page = Inl (KeyError (JStr ''name''))"
    by code_simp
  have c3: "\<exists>r e. convers_loop (Suc 0) malformed_listing [] [] chunk_size_convers ''archived'' 0
                ([(JStr ''a'', sample_convers)], []) [] = ([] @ [r], Some (Inl e))"
    using inst [THEN conjunct2, THEN conjunct1] srv by (simp only: simp_thms)
  have c4: "snd (FBDumper_init 3 malformed_listing (\<lambda>p. None) None (Some sample_raw_data) None
                   2000 1 ''output'' []) = Some (Inl (KeyError (JStr ''name'')))"
    by code_simp
  have c5: "\<exists>tr1 st1.
         convers_loop 1 empty_listing (headers d) (post_data d) chunk_size_convers ''inbox'' 0
             ([], []) [] = (tr1, Some (Inr st1))
         \<and> convers_loop 1 empty_listing (headers d) (post_data d) chunk_size_convers ''archived'' 0
             st1 tr1 = (tr', Some (Inr (convers d, participants d)))"
    using inst [THEN conjunct2, THEN conjunct2, THEN conjunct1] init by (simp only: simp_thms)
  have b: "listing_of half_good_page = Some ([group_thread ''1''] @ ?c # [], [participant ''u1'' ''Ann''])"
    by (simp add: half_good_page_def listing_answer_def listing_of_def)
  have bm: "(\<exists>p \<in> set [participant ''u1'' ''Ann'']. participant_field_missing p)
           \<or> (\<exists>c \<in> set ([group_thread ''1''] @ ?c # []). thread_field_missing c)"
    by (simp add: thread_field_missing_def)
  have hyp: "(\<forall>p \<in> set [participant ''u1'' ''Ann'']. participant_ok p)
             \<and> [group_thread ''1''] @ ?c # [] = [group_thread ''1''] @ ?c # []
             \<and> (\<forall>c \<in> set [group_thread ''1'']. thread_ok [participant ''u1'' ''Ann''] c)
             \<and> thread_field_missing ?c"
    by (simp add: participant_ok_def participant_def thread_ok_def group_thread_def thread_id_def
        thread_field_missing_def)
  have c6: "\<exists>ps' cv1.
         merge_participants [] [participant ''u1'' ''Ann''] = Inr ps'
         \<and> merge_threads ''inbox'' ps' empty_convers [] [group_thread ''1''] = Inr cv1
         \<and> page_reached ''inbox'' ([], []) half_good_page = (cv1, ps')"
    using malformed_page_fatal [OF b bm, where status = "''inbox''" and st = "([], [])"
        and good_ths = "[group_thread ''1'']" and bad_th = ?c and rest_ths = "[]",
        THEN conjunct2, THEN conjunct2, THEN conjunct2, THEN conjunct2, THEN mp, OF hyp]
    by (simp only: fst_conv snd_conv)
  show ?thesis
    using c2 c3 c4 c5 c6 init by (intro conjI) blast+
qed

text \<open>
  C6 as stated has the two dictionaries left as they were before the malformed page.
  On the page with a participant, a well-formed group and a nameless group, starting
  from empty dictionaries, \<open>merge_page\<close> raises the KeyError for \<open>name\<close>, and by then the
  index holds the group \<open>1\<close> and the directory holds the participant \<open>u1\<close>.
\<close>

theorem malformed_page_counterexample:
  "merge_page ''inbox'' chunk_size_convers ([], []) half_good_page = Inl (KeyError (JStr ''name''))
   \<and> map fst (fst (page_reached ''inbox'' ([], []) half_good_page)) = [JStr ''1'']
   \<and> snd (page_reached ''inbox'' ([], []) half_good_page) = [(JStr ''u1'', JStr ''Ann'')]"
  by (intro conjI; code_simp)

section \<open>Media attachments\<close>

lemma py_getitem_attr:
  "attr k v = Some x \<Longrightarrow> py_getitem v k = Inr x"
  by (cases v) (simp_all add: attr_def)

lemma bind_Inr_eq [simp]: "bind (Inr x) f = f x"
  by (simp add: bind_def)

lemma media_step_other:
  assumes "attr ''attach_type'' a = Some t" and "t \<noteq> JStr kind"
  shows "check_and_get_media kind url_key dt p (a # rest) = check_and_get_media kind url_key dt p rest"
    and "\<not> eligible kind url_key a"
  using assms by (simp_all add: py_getitem_attr eligible_def)

lemma media_step_null:
  assumes "attr ''attach_type'' a = Some (JStr kind)" and "attr url_key a = Some JNull"
  shows "check_and_get_media kind url_key dt p (a # rest) = check_and_get_media kind url_key dt p rest"
    and "\<not> eligible kind url_key a"
  using assms by (simp_all add: py_getitem_attr eligible_def)

lemma media_step_report:
  assumes "attr ''attach_type'' a = Some (JStr kind)" and "attr url_key a = Some (JStr u)"
    and "mode p = REPORT"
  shows "check_and_get_media kind url_key dt p (a # rest) =
           check_and_get_media kind url_key dt
             (p\<lparr>streams := (streams p)(dt := streams p dt @ u @ [newline]),
                counts := (counts p)(dt := counts p dt + 1)\<rparr>) rest"
    and "eligible kind url_key a" and "str_attr url_key a = u"
  using assms by (simp_all add: py_getitem_attr eligible_def py_add_str_def str_attr_def)

lemma media_step_dl:
  assumes "attr ''attach_type'' a = Some (JStr kind)" and "attr url_key a = Some (JStr u)"
    and "mode p = DL" and "attr ''name'' a = Some (JStr n)"
  shows "check_and_get_media kind url_key dt p (a # rest) =
           check_and_get_media kind url_key dt
             (p\<lparr>streams := (streams p)(dt := streams p dt @ u @ [newline]),
                futures := futures p @ [(JStr u, output_convers p @ data_type_value dt @ sep @ n)],
                counts := (counts p)(dt := counts p dt + 1)\<rparr>) rest"
    and "eligible kind url_key a" and "str_attr url_key a = u" and "str_attr ''name'' a = n"
  using assms
  by (simp_all add: py_getitem_attr eligible_def py_add_str_def py_str_add_def str_attr_def)

lemma media_ok_cases:
  assumes "media_ok m kind url_key a"
  obtains (other) t where "attr ''attach_type'' a = Some t" and "t \<noteq> JStr kind"
  | (null) "attr ''attach_type'' a = Some (JStr kind)" and "attr url_key a = Some JNull"
  | (report) u where "attr ''attach_type'' a = Some (JStr kind)" and "attr url_key a = Some (JStr u)"
      and "m \<noteq> DL"
  | (dl) u n where "attr ''attach_type'' a = Some (JStr kind)" and "attr url_key a = Some (JStr u)"
      and "m = DL" and "attr ''name'' a = Some (JStr n)"
  using assms unfolding media_ok_def
  by (auto split: option.splits json.splits)

lemma check_and_get_media_ok:
  assumes "\<forall>a\<in>set atts. media_ok (mode p) kind url_key a"
  shows "check_and_get_media kind url_key dt p atts =
           Inr (p\<lparr>streams := (streams p)
                    (dt := streams p dt @
                       concat (map (\<lambda>a. str_attr url_key a @ [newline])
                                 (filter (eligible kind url_key) atts))),
                  counts := (counts p)
                    (dt := counts p dt + int (length (filter (eligible kind url_key) atts))),
                  futures := futures p @
                    (if mode p = DL
                     then map (\<lambda>a. (JStr (str_attr url_key a),
                                     output_convers p @ data_type_value dt @ sep @ str_attr ''name'' a))
                            (filter (eligible kind url_key) atts)
                     else [])\<rparr>)"
  using assms
proof (induction atts arbitrary: p)
  case Nil
  show ?case by simp
next
  case (Cons a atts)
  have ok: "media_ok (mode p) kind url_key a" using Cons.prems by simp
  have rest: "\<forall>b\<in>set atts. media_ok (mode q) kind url_key b" if "mode q = mode p" for q
    using Cons.prems that by simp
  from ok show ?case
  proof (cases rule: media_ok_cases)
    case (other t)
    have step: "check_and_get_media kind url_key dt p (a # atts) =
                  check_and_get_media kind url_key dt p atts"
      by (rule media_step_other(1) [OF other])
    have el: "\<not> eligible kind url_key a" by (rule media_step_other(2) [OF other])
    show ?thesis
      by (simp only: step Cons.IH [OF rest [OF refl]]) (simp add: el)
  next
    case null
    have step: "check_and_get_media kind url_key dt p (a # atts) =
                  check_and_get_media kind url_key dt p atts"
      by (rule media_step_null(1) [OF null])
    have el: "\<not> eligible kind url_key a" by (rule media_step_null(2) [OF null])
    show ?thesis
      by (simp only: step Cons.IH [OF rest [OF refl]]) (simp add: el)
  next
    case (report u)
    have m: "mode p = REPORT" using report(3) by (cases "mode p") simp_all
    let ?q = "p\<lparr>streams := (streams p)(dt := streams p dt @ u @ [newline]),
                counts := (counts p)(dt := counts p dt + 1)\<rparr>"
    have step: "check_and_get_media kind url_key dt p (a # atts) =
                  check_and_get_media kind url_key dt ?q atts"
      by (rule media_step_report(1) [OF report(1,2) m])
    have el: "eligible kind url_key a" by (rule media_step_report(2) [OF report(1,2) m])
    have su: "str_attr url_key a = u" by (rule media_step_report(3) [OF report(1,2) m])
    have "mode ?q = mode p" by simp
    note IH = Cons.IH [OF rest [OF this]]
    show ?thesis
      apply (simp only: step IH)
      apply (rule arg_cong [where f = Inr])
      apply (rule FBParser.equality)
      apply (simp_all add: el su m fun_eq_iff)
      done
  next
    case (dl u n)
    let ?q = "p\<lparr>streams := (streams p)(dt := streams p dt @ u @ [newline]),
                futures := futures p @ [(JStr u, output_convers p @ data_type_value dt @ sep @ n)],
                counts := (counts p)(dt := counts p dt + 1)\<rparr>"
    have step: "check_and_get_media kind url_key dt p (a # atts) =
                  check_and_get_media kind url_key dt ?q atts"
      by (rule media_step_dl(1) [OF dl])
    have el: "eligible kind url_key a" by (rule media_step_dl(2) [OF dl])
    have su: "str_attr url_key a = u" by (rule media_step_dl(3) [OF dl])
    have sn: "str_attr ''name'' a = n" by (rule media_step_dl(4) [OF dl])
    have "mode ?q = mode p" by simp
    note IH = Cons.IH [OF rest [OF this]]
    show ?thesis
      apply (simp only: step IH)
      apply (rule arg_cong [where f = Inr])
      apply (rule FBParser.equality)
      apply (simp_all add: el su sn dl(3) fun_eq_iff)
      done
  qed
qed

lemma check_and_get_attachments:
  assumes "attr ''attachments'' message = Some (JArr atts)"
  shows "bind (py_getitem message ''attachments'') (\<lambda>attachments. bind (py_iter attachments) f) = f atts"
  using assms by (simp add: py_getitem_attr)

text \<open>
  Claim C4. Let \<open>check\<close> be one of \<open>check_and_get_pics\<close>, \<open>check_and_get_gifs\<close>,
  \<open>check_and_get_videos\<close> and \<open>check_and_get_files\<close>, with its attachment type \<open>kind\<close>, its
  URL key and its data type \<open>dt\<close>, and let the attachments of the message be well formed.
  Then the call returns, and exactly the attachments whose type is \<open>kind\<close> and whose URL
  is not null are counted: each adds its URL and a newline to the text of \<open>dt\<close>, in the
  order of the message, and one to the counter of \<open>dt\<close>; in download mode, and only
  then, each also adds one download of its URL to the file named like the attachment
  in the subfolder named like \<open>dt\<close>. An attachment of another type, or with a null URL,
  adds nothing.
\<close>

theorem media_attachments:
  assumes "(check, kind, url_key, dt) \<in> set media_functions"
    and "attr ''attachments'' message = Some (JArr atts)"
    and "\<forall>a\<in>set atts. media_ok (mode p) kind url_key a"
  shows "check p message =
           Inr (p\<lparr>streams := (streams p)
                    (dt := streams p dt @
                       concat (map (\<lambda>a. str_attr url_key a @ [newline])
                                 (filter (eligible kind url_key) atts))),
                  counts := (counts p)
                    (dt := counts p dt + int (length (filter (eligible kind url_key) atts))),
                  futures := futures p @
                    (if mode p = DL
                     then map (\<lambda>a. (JStr (str_attr url_key a),
                                     output_convers p @ data_type_value dt @ sep @ str_attr ''name'' a))
                            (filter (eligible kind url_key) atts)
                     else [])\<rparr>)"
proof -
  have "check p message = check_and_get_media kind url_key dt p atts"
    using assms(1) check_and_get_attachments [OF assms(2)]
    by (auto simp add: media_functions_def check_and_get_pics_def check_and_get_gifs_def
          check_and_get_videos_def check_and_get_files_def)
  then show ?thesis
    by (simp only: check_and_get_media_ok [OF assms(3)])
qed

text \<open>
  The message with a photo and a file without URL, in download mode: one line, one
  count and one download for the pictures; no line, no count and no download for the
  files.
\<close>

theorem media_attachments_witness:
  "(case check_and_get_pics dl_parser photo_and_file of
      Inl e \<Rightarrow> None
    | Inr p \<Rightarrow> Some (streams p PICTURES, counts p PICTURES, futures p)) =
     Some (''https://cdn/p.jpg'' @ [newline], 1,
           [(JStr ''https://cdn/p.jpg'', ''output/a - A/pictures/p.jpg'')]) \<and>
   (case check_and_get_files dl_parser photo_and_file of
      Inl e \<Rightarrow> None
    | Inr p \<Rightarrow> Some (streams p FILES, counts p FILES, futures p)) = Some ([], 0, [])"
  using media_attachments [of check_and_get_pics "''photo''" "''preview_url''" PICTURES
          photo_and_file "[photo, file_without_url]" dl_parser]
        media_attachments [of check_and_get_files "''file''" "''url''" FILES
          photo_and_file "[photo, file_without_url]" dl_parser]
  by (simp add: media_functions_def attr_def photo_and_file_def photo_def file_without_url_def
        media_ok_def eligible_def str_attr_def dl_parser_def report_parser_def sep_def)

text \<open>
  The same message through \<open>process_msgs\<close> with the functions that \<open>parse\<close> lists for
  pictures and files: one line in the pictures text, none in the files text, and the
  one download of the photo.
\<close>

lemma pictures_and_files_example:
  "(case process_msgs (parse_functions sample_library [PICTURES, FILES]) dl_parser
           (JArr [photo_and_file]) of
      Inl e \<Rightarrow> None
    | Inr p \<Rightarrow> Some (streams p PICTURES, streams p FILES, futures p)) =
     Some (''https://cdn/p.jpg'' @ [newline], [],
           [(JStr ''https://cdn/p.jpg'', ''output/a - A/pictures/p.jpg'')])"
  by (simp add: process_msgs_def parse_functions_def common_checks_def action_type_user_msg_def
        photo_and_file_def photo_def file_without_url_def check_and_get_pics_def
        check_and_get_files_def dl_parser_def report_parser_def py_add_str_def py_str_add_def
        sep_def)

section \<open>Messages of unknown authors\<close>

lemma attachment_names_ok:
  "\<forall>a\<in>set atts. named a \<Longrightarrow> attachment_names L atts = Inr (names_of L atts)"
proof (induction atts)
  case Nil
  show ?case by (simp add: names_of_def)
next
  case (Cons a atts)
  have IH: "attachment_names L atts = Inr (names_of L atts)" using Cons by simp
  have "named a" using Cons.prems by simp
  then obtain t where t: "attr ''attach_type'' a = Some t"
    and n: "t \<noteq> JStr ''error'' \<Longrightarrow> \<exists>n. attr ''name'' a = Some n"
    by (auto simp add: named_def split: option.splits)
  show ?case
  proof (cases "t = JStr ''error''")
    case True
    then show ?thesis
      using t IH by (simp add: py_getitem_attr names_of_def)
  next
    case False
    then obtain nm where nm: "attr ''name'' a = Some nm" using n by blast
    show ?thesis
      using t False nm IH by (simp add: py_getitem_attr names_of_def)
  qed
qed

lemma check_and_get_msg_ok:
  assumes "attr ''attachments'' message = Some (JArr atts)"
    and "\<forall>a\<in>set atts. named a"
    and "attr ''author'' message = Some (JStr author)"
    and "attr ''body'' message = Some body"
    and "attr ''timestamp'' message = Some (JNum ms)"
    and "fromtimestamp_strftime L ms = Some date"
  shows "check_and_get_msg L p message =
           Inr (p\<lparr>streams := (streams p)
                    (MESSAGES := streams p MESSAGES @
                       message_fmt (py_repr L body) (butlast (names_of L atts))
                         (username_of L (parser_participants p) (drop 5 author))
                         (drop 5 author) date),
                  counts := (counts p)(MESSAGES := counts p MESSAGES + 1)\<rparr>)"
  using assms(3-6)
  by (simp add: check_and_get_msg_def py_getitem_attr [OF assms(1)] attachment_names_ok [OF assms(2)]
        py_getitem_attr py_from5_def dict_contains_def dict_get_def format_time_def
        username_of_def py_str_any_def Let_def split: option.splits)

text \<open>
  Claim C10. Take a message whose attachments are well formed, whose author is a
  string, which has a body and a timestamp that the clock renders. If the author
  identifier without its first five characters is not a key of the participant
  directory, \<open>check_and_get_msg\<close> returns: it adds to the messages text one line with
  the empty string as the user name, and one to the counter of messages.
\<close>

theorem message_of_unknown_author:
  assumes "attr ''attachments'' message = Some (JArr atts)"
    and "\<forall>a\<in>set atts. named a"
    and "attr ''author'' message = Some (JStr author)"
    and "dict_find (parser_participants p) (JStr (drop 5 author)) = None"
    and "attr ''body'' message = Some body"
    and "attr ''timestamp'' message = Some (JNum ms)"
    and "fromtimestamp_strftime L ms = Some date"
  shows "check_and_get_msg L p message =
           Inr (p\<lparr>streams := (streams p)
                    (MESSAGES := streams p MESSAGES @
                       message_fmt (py_repr L body) (butlast (names_of L atts)) []
                         (drop 5 author) date),
                  counts := (counts p)(MESSAGES := counts p MESSAGES + 1)\<rparr>)"
  using check_and_get_msg_ok [OF assms(1,2,3,5,6,7), of p] assms(4)
  by (simp add: username_of_def)

text \<open>
  The message of the stranger: one line with the empty user name between the quotes,
  and the counter at one.
\<close>

theorem message_of_unknown_author_witness:
  "(case check_and_get_msg sample_library report_parser message_of_stranger of
      Inl e \<Rightarrow> None
    | Inr p \<Rightarrow> Some (streams p MESSAGES, counts p MESSAGES)) =
     Some (''Message body: '' @ quote @ ''hi'' @ quote @ '' - attachments {p.jpg} - sent by: ''
             @ quote @ quote @ '' (42) - the 1970-01-01 00:00:00'' @ [newline], 1)"
  using message_of_unknown_author [of message_of_stranger "[photo]" "''fbid:42''" report_parser
          "JStr ''hi''" 0 sample_library "''1970-01-01 00:00:00''"]
  by (simp add: attr_def message_of_stranger_def photo_def named_def report_parser_def
        sample_library_def names_of_def message_fmt_def py_str_any_def)

text \<open>
  Whether \<open>check_and_get_msg\<close> raises does not depend on the participant directory at
  all: the lookup of the author is never what fails.
\<close>

lemma author_lookup_never_raises:
  "(\<exists>e. check_and_get_msg L (p\<lparr>parser_participants := ps\<rparr>) message = Inl e) \<longleftrightarrow>
   (\<exists>e. check_and_get_msg L p message = Inl e)"
  by (auto simp add: check_and_get_msg_def bind_def Let_def dict_contains_def dict_get_def
        split: sum.splits option.splits if_splits)

section \<open>Links\<close>

text \<open>
  When the regular expression of line 363 is found. A URI that starts with the wrapper
  written with its four literal characters at the dots, followed by a target without
  \<open>&\<close> and newline and by \<open>&h=\<close>, gives the target. A URI that does not contain \<open>&h=\<close>
  gives no match.
\<close>

lemma lazy_until_target:
  "newline \<notin> set target \<Longrightarrow> CHR ''&'' \<notin> set target \<Longrightarrow>
   lazy_until ''&h='' (target @ ''&h='' @ rest) = Some target"
  by (induction target) auto

lemma match_here_wrapped:
  "match_here (''https://l.facebook.com/l.php?u='' @ s) = lazy_until ''&h='' s"
  by (simp add: match_here_def regex_prefix_def regex_suffix_def newline_def)

lemma re_search_wrapped:
  assumes "newline \<notin> set target" and "CHR ''&'' \<notin> set target"
  shows "re_search (''https://l.facebook.com/l.php?u='' @ target @ ''&h='' @ rest) = Some target"
proof -
  have "match_here (''https://l.facebook.com/l.php?u='' @ target @ ''&h='' @ rest) = Some target"
    unfolding match_here_wrapped by (rule lazy_until_target [OF assms])
  then show ?thesis by simp
qed

lemma str_contains_append: "str_contains k (a @ k @ b)"
proof (induction a)
  case Nil
  have t: "take (length k) (k @ b) = k" by simp
  show ?case
  proof (cases "k @ b")
    case Nil
    then show ?thesis by simp
  next
    case (Cons c cs)
    then show ?thesis using t by simp
  qed
next
  case (Cons c a)
  then show ?case by simp
qed

lemma lazy_until_Some:
  "lazy_until stop s = Some g \<Longrightarrow> \<exists>rest. s = g @ stop @ rest"
proof (induction s arbitrary: g)
  case Nil
  then show ?case by (simp split: if_splits)
next
  case (Cons c s)
  show ?case
  proof (cases "take (length stop) (c # s) = stop")
    case True
    then have "g = []" using Cons.prems by simp
    moreover have "c # s = stop @ drop (length stop) (c # s)"
      using True append_take_drop_id [of "length stop" "c # s"] by simp
    ultimately show ?thesis by auto
  next
    case False
    then obtain g' where g': "lazy_until stop s = Some g'" and g: "g = c # g'"
      using Cons.prems by (auto split: if_splits)
    from Cons.IH [OF g'] obtain rest where "s = g' @ stop @ rest" ..
    then show ?thesis using g by auto
  qed
qed

lemma match_atoms_Some:
  "match_atoms as s = Some r \<Longrightarrow> \<exists>pre. s = pre @ r"
proof (induction as s rule: match_atoms.induct)
  case (1 s)
  then show ?case by simp
next
  case (2 a as)
  then show ?case by simp
next
  case (3 a as c cs)
  then have m: "match_atoms as cs = Some r" by (simp split: if_splits)
  have "atom_matches a c" using 3(2) by (simp split: if_splits)
  from 3(1) [OF this m] obtain pre where "cs = pre @ r" ..
  then have "c # cs = (c # pre) @ r" by simp
  then show ?case by blast
qed

lemma match_here_Some:
  assumes "match_here s = Some g"
  shows "str_contains ''&h='' s"
proof -
  from assms obtain r where r: "match_atoms regex_prefix s = Some r"
    and g: "lazy_until ''&h='' r = Some g"
    by (auto simp add: match_here_def regex_suffix_def split: option.splits)
  from match_atoms_Some [OF r] obtain pre where pre: "s = pre @ r" ..
  from lazy_until_Some [OF g] obtain rest where "r = g @ ''&h='' @ rest" ..
  then have "s = (pre @ g) @ ''&h='' @ rest" using pre by simp
  then show ?thesis using str_contains_append [of "''&h=''" "pre @ g" rest] by simp
qed

lemma re_search_plain:
  "\<not> str_contains ''&h='' s \<Longrightarrow> re_search s = None"
proof (induction s)
  case Nil
  then show ?case using match_here_Some [of "[]"] by (cases "match_here []") auto
next
  case (Cons c s)
  have "match_here (c # s) = None"
    using Cons.prems match_here_Some [of "c # s"] by (cases "match_here (c # s)") auto
  moreover have "\<not> str_contains ''&h='' s" using Cons.prems by simp
  ultimately show ?case using Cons.IH by simp
qed












section \<open>Waiting for the downloads\<close>





text \<open>Outside download mode \<open>wait_threads\<close> does nothing.\<close>

lemma report_mode_waits_for_nothing:
  "mode p \<noteq> DL \<Longrightarrow> wait_threads p to_stdout verbose completed w = ((w, None), Inr ())"
  by (simp add: wait_threads_def)

end
